theory Spec2Isabelle
  imports Main "HOL-Library.AList"
begin

section \<open>JavaScript values as the program sees them\<close>

text \<open>
  The program is TypeScript, but every payload is typed \<^verbatim>\<open>any\<close> and the JSON import
  stores raw parsed values inside nodes, so the embedding works on run-time values.
  A \<^verbatim>\<open>DataNode\<close> is a plain object with the properties \<^verbatim>\<open>id\<close>, \<^verbatim>\<open>name\<close>,
  \<^verbatim>\<open>type\<close> and \<^verbatim>\<open>value\<close>; an object is the list of its own enumerable properties in
  enumeration order. Numbers are kept abstract (the type parameter): the program only
  stores them, prints them and hands them to the engine. Strings are lists of
  characters with codes below 256.
\<close>

datatype 'n jsval =
    Undefined
  | Null
  | Bool bool
  | Num 'n
  | Str string
  | Arr "'n jsval list"
  | Obj "(string \<times> 'n jsval) list"

text \<open>
  What a \<^verbatim>\<open>throw\<close> carries: \<open>Error m\<close> is \<^verbatim>\<open>new Error(m)\<close>; \<open>TypeError\<close> is the
  engine's own error for reading a property of \<^verbatim>\<open>null\<close> or \<^verbatim>\<open>undefined\<close>, calling
  something that is not a function, or converting an object without a usable
  \<^verbatim>\<open>toString\<close> to a string.
\<close>

datatype exn = Error string | TypeError

text \<open>
  The parts of the JavaScript engine the program calls and whose result is not
  determined by the program text: \<^verbatim>\<open>Number.prototype.toString\<close>, the truthiness of a
  number, \<^verbatim>\<open>isNaN(Number(s))\<close>, \<^verbatim>\<open>new Function(body)()\<close>, the successive results of
  \<^verbatim>\<open>Math.random().toString(36).substr(2, 9)\<close>, and the wording of a TypeError.
\<close>

record 'n host =
  numberToString :: "'n \<Rightarrow> string"
  numberIsFalsy :: "'n \<Rightarrow> bool"
  stringIsNaN :: "string \<Rightarrow> bool"
  runFunction :: "string \<Rightarrow> exn + 'n jsval"
  randomId :: "nat \<Rightarrow> string"
  typeErrorMessage :: string

text \<open>
  \<^verbatim>\<open>generateId()\<close>: the state is the number of identifiers drawn so far. Nothing makes
  two draws differ.
\<close>

definition generateId :: "'n host \<Rightarrow> nat \<Rightarrow> string \<times> nat" where
  "generateId h s = (randomId h s, Suc s)"

text \<open>
  \<^verbatim>\<open>v.k\<close> for the property names the program reads (\<^verbatim>\<open>name\<close>, \<^verbatim>\<open>type\<close>,
  \<^verbatim>\<open>value\<close>), none of which a built-in prototype defines: an own property of an
  object, \<^verbatim>\<open>undefined\<close> on every other value, a TypeError on \<^verbatim>\<open>null\<close> and
  \<^verbatim>\<open>undefined\<close>.
\<close>

fun getProp :: "'n jsval \<Rightarrow> string \<Rightarrow> exn + 'n jsval" where
  "getProp Undefined k = Inl TypeError"
| "getProp Null k = Inl TypeError"
| "getProp (Obj kvs) k = Inr (case map_of kvs k of Some v \<Rightarrow> v | None \<Rightarrow> Undefined)"
| "getProp v k = Inr Undefined"

text \<open>
  A property written by an object literal or a spread (\<^verbatim>\<open>{...node, value: v}\<close>): an
  existing key keeps its place, a new key goes last. (The engine enumerates keys that
  are array indices before the others, in numeric order. No property stated below
  depends on the place of a key: objects are compared by \<open>deepEqual\<close> or read by key.)
\<close>

definition defineProp :: "(string \<times> 'n jsval) list \<Rightarrow> string \<Rightarrow> 'n jsval \<Rightarrow> (string \<times> 'n jsval) list" where
  "defineProp kvs k v = AList.update k v kvs"

text \<open>\<^verbatim>\<open>String(i)\<close> for an array index, in decimal.\<close>

definition digitChar :: "nat \<Rightarrow> char" where
  "digitChar d = ''0123456789'' ! d"

fun indexString :: "nat \<Rightarrow> string" where
  "indexString n = (if n < 10 then [digitChar n] else indexString (n div 10) @ [digitChar (n mod 10)])"

declare indexString.simps [simp del]

text \<open>
  The own enumerable properties \<^verbatim>\<open>Object.keys\<close> and the spread operator see: those of
  an object, the indices of an array or of a string, none on the other values.
\<close>

fun indexed :: "nat \<Rightarrow> 'a list \<Rightarrow> (string \<times> 'a) list" where
  "indexed i [] = []"
| "indexed i (x # xs) = (indexString i, x) # indexed (Suc i) xs"

fun ownProps :: "'n jsval \<Rightarrow> (string \<times> 'n jsval) list" where
  "ownProps (Obj kvs) = kvs"
| "ownProps (Arr xs) = indexed 0 xs"
| "ownProps (Str s) = indexed 0 (map (\<lambda>c. Str [c]) s)"
| "ownProps v = []"

text \<open>The object literal \<^verbatim>\<open>{ id: i, name: n, type: t, value: v }\<close>.\<close>

definition mkNode :: "string \<Rightarrow> 'n jsval \<Rightarrow> 'n jsval \<Rightarrow> 'n jsval \<Rightarrow> 'n jsval" where
  "mkNode i n t v = Obj [(''id'', Str i), (''name'', n), (''type'', t), (''value'', v)]"

section \<open>Paths\<close>

text \<open>\<^verbatim>\<open>path.split('.')\<close> and \<^verbatim>\<open>parts.join('.')\<close>.\<close>

fun split_dot :: "string \<Rightarrow> string list" where
  "split_dot [] = [[]]"
| "split_dot (c # cs) =
     (if c = CHR ''.'' then [] # split_dot cs
      else (case split_dot cs of p # ps \<Rightarrow> (c # p) # ps | [] \<Rightarrow> [[c]]))"

fun join_dot :: "string list \<Rightarrow> string" where
  "join_dot [] = []"
| "join_dot [p] = p"
| "join_dot (p # q # ps) = p @ CHR ''.'' # join_dot (q # ps)"

lemma split_dot_nonempty: "split_dot s \<noteq> []"
  by (induction s) (auto split: list.splits)

lemma join_split_dot: "join_dot (split_dot s) = s"
proof (induction s)
  case Nil
  show ?case by simp
next
  case (Cons c cs)
  obtain p ps where sp: "split_dot cs = p # ps"
    using split_dot_nonempty [of cs] by (cases "split_dot cs") auto
  show ?case
  proof (cases "c = CHR ''.''")
    case True
    with Cons sp show ?thesis by simp
  next
    case False
    with Cons sp show ?thesis by (cases ps) auto
  qed
qed

lemma split_dot_parts_nodot: "p \<in> set (split_dot s) \<Longrightarrow> CHR ''.'' \<notin> set p"
proof (induction s arbitrary: p)
  case Nil
  then show ?case by simp
next
  case (Cons c cs)
  obtain q qs where sp: "split_dot cs = q # qs"
    using split_dot_nonempty [of cs] by (cases "split_dot cs") auto
  from Cons sp show ?case by (auto split: if_splits)
qed

lemma split_join_dot:
  "ps \<noteq> [] \<Longrightarrow> \<forall>p \<in> set ps. CHR ''.'' \<notin> set p \<Longrightarrow> split_dot (join_dot ps) = ps"
proof (induction ps rule: join_dot.induct)
  case 1
  then show ?case by simp
next
  case (2 p)
  then show ?case by (induction p) auto
next
  case (3 p q ps)
  then have ih: "split_dot (join_dot (q # ps)) = q # ps" by simp
  from 3 have "CHR ''.'' \<notin> set p" by simp
  then show ?case using ih by (induction p) auto
qed

lemma split_dot_rest:
  assumes "split_dot s = key # rest" and "rest \<noteq> []"
  shows "split_dot (join_dot rest) = rest" and "length (join_dot rest) < length s"
proof -
  have "\<forall>p \<in> set rest. CHR ''.'' \<notin> set p"
    using split_dot_parts_nodot [of _ s] assms(1) by simp
  with assms(2) show "split_dot (join_dot rest) = rest" by (rule split_join_dot)
  have "s = join_dot (key # rest)" using join_split_dot [of s] assms(1) by simp
  with assms(2) show "length (join_dot rest) < length s" by (cases rest) auto
qed

section \<open>The tree mutator: setDeepValue\<close>

text \<open>
  \<^verbatim>\<open>nodes.findIndex(n => n.name === key)\<close>: \<open>None\<close> is \<^verbatim>\<open>-1\<close>. The callback throws
  on an element that is \<^verbatim>\<open>null\<close> or \<^verbatim>\<open>undefined\<close>.
\<close>

fun findIndex :: "'n jsval list \<Rightarrow> string \<Rightarrow> exn + nat option" where
  "findIndex [] key = Inr None"
| "findIndex (n # ns) key =
     (case getProp n ''name'' of
        Inl e \<Rightarrow> Inl e
      | Inr v \<Rightarrow>
          if v = Str key then Inr (Some 0)
          else (case findIndex ns key of
                  Inl e \<Rightarrow> Inl e
                | Inr None \<Rightarrow> Inr None
                | Inr (Some i) \<Rightarrow> Inr (Some (Suc i))))"

text \<open>
  \<^verbatim>\<open>setDeepValue(nodes, pathStr, value, type)\<close>, with the identifier state threaded
  through. \<^verbatim>\<open>nodes\<close> is whatever the caller or the recursion passes
  (\<^verbatim>\<open>node.value as DataNode[]\<close> is not checked): calling \<^verbatim>\<open>findIndex\<close> on a value that is
  not an array is a TypeError. In the object literal of an intermediate node the
  identifier is drawn before the recursive call. \<^verbatim>\<open>split\<close> never returns an empty
  array, so the first case of the definition is never taken.
\<close>

function setDeepValue ::
  "'n host \<Rightarrow> 'n jsval \<Rightarrow> string \<Rightarrow> 'n jsval \<Rightarrow> string \<Rightarrow> nat \<Rightarrow> exn + ('n jsval \<times> nat)" where
  "setDeepValue h nodes pathStr val ty s =
     (case split_dot pathStr of
        [] \<Rightarrow> Inl TypeError
      | key # rest \<Rightarrow>
         (case nodes of
            Arr ns \<Rightarrow>
              (case findIndex ns key of
                 Inl e \<Rightarrow> Inl e
               | Inr (Some existingIndex) \<Rightarrow>
                   (let node = ns ! existingIndex in
                    if rest = [] then
                      Inr (Arr (take existingIndex ns
                                @ [Obj (defineProp (defineProp (ownProps node) ''value'' val) ''type'' (Str ty))]
                                @ drop (existingIndex + 1) ns), s)
                    else
                      (case getProp node ''type'' of
                         Inl e \<Rightarrow> Inl e
                       | Inr t \<Rightarrow>
                           if t \<noteq> Str ''dictionary'' \<and> t \<noteq> Str ''list'' then Inr (nodes, s)
                           else
                             (case getProp node ''value'' of
                                Inl e \<Rightarrow> Inl e
                              | Inr sub \<Rightarrow>
                                  (case setDeepValue h sub (join_dot rest) val ty s of
                                     Inl e \<Rightarrow> Inl e
                                   | Inr (sub', s') \<Rightarrow>
                                       Inr (Arr (take existingIndex ns
                                                 @ [Obj (defineProp (ownProps node) ''value'' sub')]
                                                 @ drop (existingIndex + 1) ns), s')))))
               | Inr None \<Rightarrow>
                   if rest = [] then
                     (let (i, s1) = generateId h s in
                      Inr (Arr (ns @ [mkNode i (Str key) (Str ty) val]), s1))
                   else
                     (let (i, s1) = generateId h s in
                      case setDeepValue h (Arr []) (join_dot rest) val ty s1 of
                        Inl e \<Rightarrow> Inl e
                      | Inr (sub, s') \<Rightarrow>
                          Inr (Arr (ns @ [mkNode i (Str key) (Str ''dictionary'') sub]), s')))
          | _ \<Rightarrow> Inl TypeError))"
  by pat_completeness auto
termination
  by (relation "measure (\<lambda>(h, nodes, pathStr, val, ty, s). length pathStr)")
     (auto dest: split_dot_rest(2))

declare setDeepValue.simps [simp del]

section \<open>Conversions of the engine\<close>

text \<open>Truthiness, as \<^verbatim>\<open>!x\<close> and \<^verbatim>\<open>a || b\<close> test it.\<close>

fun truthy :: "'n host \<Rightarrow> 'n jsval \<Rightarrow> bool" where
  "truthy h Undefined = False"
| "truthy h Null = False"
| "truthy h (Bool b) = b"
| "truthy h (Num n) = (\<not> numberIsFalsy h n)"
| "truthy h (Str s) = (s \<noteq> [])"
| "truthy h (Arr xs) = True"
| "truthy h (Obj kvs) = True"

text \<open>
  \<^verbatim>\<open>String(v)\<close>, which is also the conversion \<^verbatim>\<open>replace\<close> applies to what its callback
  returns and the conversion of a computed property key. An array joins its elements
  with commas, printing \<^verbatim>\<open>null\<close> and \<^verbatim>\<open>undefined\<close> as nothing. An object prints as
  \<^verbatim>\<open>[object Object]\<close> through the inherited \<^verbatim>\<open>toString\<close>; when it has an own property
  of that name (a value of the tree is data, never a function) the conversion finds
  no method that returns a primitive and throws a TypeError.
\<close>

fun jsString :: "'n host \<Rightarrow> 'n jsval \<Rightarrow> exn + string"
  and joinComma :: "'n host \<Rightarrow> 'n jsval list \<Rightarrow> exn + string" where
  "jsString h Undefined = Inr ''undefined''"
| "jsString h Null = Inr ''null''"
| "jsString h (Bool b) = Inr (if b then ''true'' else ''false'')"
| "jsString h (Num n) = Inr (numberToString h n)"
| "jsString h (Str s) = Inr s"
| "jsString h (Arr xs) = joinComma h xs"
| "jsString h (Obj kvs) =
     (if map_of kvs ''toString'' \<noteq> None then Inl TypeError else Inr ''[object Object]'')"
| "joinComma h [] = Inr []"
| "joinComma h (x # xs) =
     (case (if x = Undefined \<or> x = Null then Inr [] else jsString h x) of
        Inl e \<Rightarrow> Inl e
      | Inr a \<Rightarrow>
          if xs = [] then Inr a
          else (case joinComma h xs of Inl e \<Rightarrow> Inl e | Inr b \<Rightarrow> Inr (a @ CHR '','' # b)))"

text \<open>\<^verbatim>\<open>typeof v\<close>.\<close>

fun typeof :: "'n jsval \<Rightarrow> string" where
  "typeof Undefined = ''undefined''"
| "typeof Null = ''object''"
| "typeof (Bool b) = ''boolean''"
| "typeof (Num n) = ''number''"
| "typeof (Str s) = ''string''"
| "typeof (Arr xs) = ''object''"
| "typeof (Obj kvs) = ''object''"

fun isArray :: "'n jsval \<Rightarrow> bool" where
  "isArray (Arr xs) = True"
| "isArray v = False"

text \<open>
  \<^verbatim>\<open>parseInt(s)\<close> with no radix: leading white space is dropped, then an optional sign,
  then \<^verbatim>\<open>0x\<close> or \<^verbatim>\<open>0X\<close> selects radix 16, then the longest run of digits of the radix
  is read and whatever follows is ignored; \<open>None\<close> is \<^verbatim>\<open>NaN\<close>. The result is exact
  here; the engine rounds it to a double, which differs only beyond \<open>2^53\<close>, far
  outside any array.
\<close>

definition isWhiteSpace :: "char \<Rightarrow> bool" where
  "isWhiteSpace c = (c \<in> set [CHR 0x09, CHR 0x0A, CHR 0x0B, CHR 0x0C, CHR 0x0D, CHR 0x20, CHR 0xA0])"

definition digitValue :: "char \<Rightarrow> nat" where
  "digitValue c =
     (let n = (of_char c :: nat) in
      if 48 \<le> n \<and> n \<le> 57 then n - 48
      else if 97 \<le> n \<and> n \<le> 122 then n - 87
      else if 65 \<le> n \<and> n \<le> 90 then n - 55
      else 36)"

definition parseInt :: "string \<Rightarrow> int option" where
  "parseInt s =
     (let t = dropWhile isWhiteSpace s;
          neg = (case t of c # _ \<Rightarrow> c = CHR ''-'' | [] \<Rightarrow> False);
          u = (case t of c # r \<Rightarrow> if c = CHR ''+'' \<or> c = CHR ''-'' then r else t | [] \<Rightarrow> t);
          hex = (case u of a # b # _ \<Rightarrow> a = CHR ''0'' \<and> (b = CHR ''x'' \<or> b = CHR ''X'') | _ \<Rightarrow> False);
          radix = (if hex then 16 else 10);
          w = (if hex then drop 2 u else u);
          ds = takeWhile (\<lambda>c. digitValue c < radix) w
      in if ds = [] then None
         else Some ((if neg then - 1 else 1) * int (foldl (\<lambda>a c. a * radix + digitValue c) 0 ds)))"

text \<open>
  \<^verbatim>\<open>current[parseInt(part)]\<close>: an element when the number is an index of the array
  (\<^verbatim>\<open>-0\<close> is the index 0), \<^verbatim>\<open>undefined\<close> otherwise.
\<close>

definition elementAt :: "'n jsval list \<Rightarrow> int option \<Rightarrow> 'n jsval" where
  "elementAt xs n =
     (case n of
        None \<Rightarrow> Undefined
      | Some i \<Rightarrow> if 0 \<le> i \<and> nat i < length xs then xs ! nat i else Undefined)"

section \<open>The path resolver: resolvePath\<close>

text \<open>\<^verbatim>\<open>current.find(node => node.name === part)\<close>.\<close>

fun findByName :: "'n jsval list \<Rightarrow> string \<Rightarrow> exn + 'n jsval" where
  "findByName [] part = Inr Undefined"
| "findByName (node # nodes) part =
     (case getProp node ''name'' of
        Inl e \<Rightarrow> Inl e
      | Inr v \<Rightarrow> if v = Str part then Inr node else findByName nodes part)"

text \<open>
  The \<^verbatim>\<open>for\<close> loop of \<^verbatim>\<open>resolvePath\<close> over the parts that remain: \<^verbatim>\<open>i === parts.length - 1\<close>
  holds when no part follows. \<open>Inr Undefined\<close> is \<^verbatim>\<open>return undefined\<close>.
\<close>

fun resolveLoop :: "'n host \<Rightarrow> string list \<Rightarrow> 'n jsval \<Rightarrow> exn + 'n jsval" where
  "resolveLoop h [] current = Inr Undefined"
| "resolveLoop h (part # rest) current =
     (case current of
        Arr xs \<Rightarrow>
          (case findByName xs part of
             Inl e \<Rightarrow> Inl e
           | Inr byName \<Rightarrow>
               (let found = (if truthy h byName then byName else elementAt xs (parseInt part)) in
                if \<not> truthy h found then Inr Undefined
                else if rest = [] then Inr found
                else (case getProp found ''value'' of
                        Inl e \<Rightarrow> Inl e
                      | Inr v \<Rightarrow> resolveLoop h rest v)))
      | _ \<Rightarrow> Inr Undefined)"

definition resolvePath :: "'n host \<Rightarrow> 'n jsval list \<Rightarrow> string \<Rightarrow> exn + 'n jsval" where
  "resolvePath h root path = resolveLoop h (split_dot path) (Arr root)"

section \<open>The expression evaluator: evaluateExpression\<close>

text \<open>
  The regular expression \<^verbatim>\<open>/\{\{([a-zA-Z0-9_.]+)\}\}/\<close> tried at the start of a string:
  the path and what follows the match. The class cannot match a brace, so the greedy
  run is the only candidate.
\<close>

definition isPathChar :: "char \<Rightarrow> bool" where
  "isPathChar c =
     (let n = (of_char c :: nat) in
      (97 \<le> n \<and> n \<le> 122) \<or> (65 \<le> n \<and> n \<le> 90) \<or> (48 \<le> n \<and> n \<le> 57)
      \<or> c = CHR ''_'' \<or> c = CHR ''.'')"

definition matchReference :: "string \<Rightarrow> (string \<times> string) option" where
  "matchReference s =
     (case s of
        a # b # r \<Rightarrow>
          if a = CHR ''{'' \<and> b = CHR ''{'' \<and> takeWhile isPathChar r \<noteq> []
             \<and> take 2 (dropWhile isPathChar r) = ''}}''
          then Some (takeWhile isPathChar r, drop 2 (dropWhile isPathChar r))
          else None
      | _ \<Rightarrow> None)"

lemma matchReference_shorter:
  "matchReference s = Some (path, r) \<Longrightarrow> length r < length s"
proof -
  assume m: "matchReference s = Some (path, r)"
  then obtain a b t where s: "s = a # b # t" and r: "r = drop 2 (dropWhile isPathChar t)"
    by (auto simp: matchReference_def split: list.splits if_splits)
  have "length (dropWhile isPathChar t) \<le> length t" by (rule length_dropWhile_le)
  with s r show ?thesis by simp
qed

text \<open>
  \<^verbatim>\<open>s.replace(re, callback)\<close> with the global flag: the matches are taken left to
  right without overlap, the callback runs on each in that order and its result
  replaces the match; an exception of the callback ends the call. The callback's
  writes to the variables it closes over are the state \<open>st\<close>.
\<close>

function replaceReferences ::
  "(string \<Rightarrow> 'st \<Rightarrow> exn + (string \<times> 'st)) \<Rightarrow> string \<Rightarrow> 'st \<Rightarrow> exn + (string \<times> 'st)" where
  "replaceReferences f [] st = Inr ([], st)"
| "replaceReferences f (c # cs) st =
     (case matchReference (c # cs) of
        Some (path, r) \<Rightarrow>
          (case f path st of
             Inl e \<Rightarrow> Inl e
           | Inr (t, st1) \<Rightarrow>
               (case replaceReferences f r st1 of
                  Inl e \<Rightarrow> Inl e
                | Inr (out, st2) \<Rightarrow> Inr (t @ out, st2)))
      | None \<Rightarrow>
          (case replaceReferences f cs st of
             Inl e \<Rightarrow> Inl e
           | Inr (out, st2) \<Rightarrow> Inr (c # out, st2)))"
  by pat_completeness auto
termination
  by (relation "measure (\<lambda>(f, s, st). length s)") (auto dest: matchReference_shorter)

text \<open>
  The callback of \<^verbatim>\<open>evaluateExpression\<close>; its state is \<^verbatim>\<open>hasReferences\<close>. In the
  \<^verbatim>\<open>expression\<close> branch the callback returns \<^verbatim>\<open>node.value\<close> and \<^verbatim>\<open>replace\<close> converts it.
\<close>

definition referenceCallback ::
  "'n host \<Rightarrow> 'n jsval list \<Rightarrow> string \<Rightarrow> bool \<Rightarrow> exn + (string \<times> bool)" where
  "referenceCallback h root path hasReferences =
     (case resolvePath h root path of
        Inl e \<Rightarrow> Inl e
      | Inr node \<Rightarrow>
          if \<not> truthy h node then Inl (Error (''Key not found: '' @ path))
          else
            (case getProp node ''type'' of
               Inl e \<Rightarrow> Inl e
             | Inr t \<Rightarrow>
                 (case getProp node ''value'' of
                    Inl e \<Rightarrow> Inl e
                  | Inr v \<Rightarrow>
                      if t = Str ''expression''
                      then (case jsString h v of Inl e \<Rightarrow> Inl e | Inr x \<Rightarrow> Inr (x, True))
                      else (case jsString h v of Inl e \<Rightarrow> Inl e | Inr x \<Rightarrow> Inr (x, True)))))"

text \<open>\<^verbatim>\<open>err.message\<close>.\<close>

fun message :: "'n host \<Rightarrow> exn \<Rightarrow> string" where
  "message h (Error m) = m"
| "message h TypeError = typeErrorMessage h"

text \<open>The two character classes: \<^verbatim>\<open>/[+\-*/%()]/\<close> and \<^verbatim>\<open>/^[0-9+\-*/().\s]+$/\<close>.\<close>

definition isOperatorChar :: "char \<Rightarrow> bool" where
  "isOperatorChar c = (c \<in> set ''+-*/%()'')"

definition isArithmeticChar :: "char \<Rightarrow> bool" where
  "isArithmeticChar c =
     ((48 \<le> (of_char c :: nat) \<and> (of_char c :: nat) \<le> 57) \<or> c \<in> set ''+-*/().'' \<or> isWhiteSpace c)"

definition onlyArithmetic :: "string \<Rightarrow> bool" where
  "onlyArithmetic s = (s \<noteq> [] \<and> list_all isArithmeticChar s)"

text \<open>
  What \<^verbatim>\<open>evaluateExpression\<close> returns: \<^verbatim>\<open>{ result, error }\<close>, the error absent when
  \<open>None\<close>.
\<close>

record 'n evaluation =
  result :: "'n jsval"
  error :: "string option"

definition evaluateExpression :: "'n host \<Rightarrow> string \<Rightarrow> 'n jsval list \<Rightarrow> 'n evaluation" where
  "evaluateExpression h expression root =
     (if expression = [] then \<lparr> result = Str [], error = None \<rparr>
      else
        (case replaceReferences (referenceCallback h root) expression False of
           Inl err \<Rightarrow> \<lparr> result = Str ''ERR'', error = Some (message h err) \<rparr>
         | Inr (resolvedString, hasReferences) \<Rightarrow>
             (let isMath = (list_ex isOperatorChar resolvedString \<or> \<not> stringIsNaN h resolvedString) in
              if isMath \<and> hasReferences then
                if \<not> onlyArithmetic resolvedString then \<lparr> result = Str resolvedString, error = None \<rparr>
                else
                  (case runFunction h (''return '' @ resolvedString) of
                     Inl err \<Rightarrow> \<lparr> result = Str ''ERR'', error = Some (message h err) \<rparr>
                   | Inr mathResult \<Rightarrow> \<lparr> result = mathResult, error = None \<rparr>)
              else \<lparr> result = Str resolvedString, error = None \<rparr>)))"

section \<open>The JSON codec: exportData and parseImport\<close>

text \<open>
  The object \<^verbatim>\<open>result\<close> while \<^verbatim>\<open>exportData\<close> builds it: its own properties, and
  whether a write of the key \<^verbatim>\<open>__proto__\<close> that no own property absorbs is passed by the
  prototype chain of the object on to the setter that \<^verbatim>\<open>Object.prototype\<close> defines. A
  fresh literal \<^verbatim>\<open>{}\<close> has no property and passes the write on.
\<close>

type_synonym 'n resultObject = "(string \<times> 'n jsval) list \<times> bool"

definition emptyObject :: "'n resultObject" where
  "emptyObject = ([], True)"

text \<open>
  Whether a value of the tree, installed as a prototype, passes a write of \<^verbatim>\<open>__proto__\<close>
  on: a parsed object that has an own property of that name absorbs it (the write
  then creates an own property on the receiver); every other object and every array
  hands it to its own prototype, which is the built-in one.
\<close>

fun passesProtoWrite :: "'n jsval \<Rightarrow> bool" where
  "passesProtoWrite (Obj kvs) = (map_of kvs ''__proto__'' = None)"
| "passesProtoWrite v = True"

text \<open>
  The assignment \<^verbatim>\<open>result[key] = v\<close>; \<open>vPasses\<close> says whether \<open>v\<close>, as a prototype,
  would pass a write of \<^verbatim>\<open>__proto__\<close> on. Every key but \<^verbatim>\<open>__proto__\<close> becomes an own
  property (an existing one keeps its place), and so does \<^verbatim>\<open>__proto__\<close> once the object
  has an own property of that name. Otherwise the write of \<^verbatim>\<open>__proto__\<close> travels up the
  prototype chain. If it reaches the setter, no own property appears: the setter
  installs \<open>v\<close> as the prototype when \<open>v\<close> is an object or an array, removes the
  prototype when \<open>v\<close> is \<^verbatim>\<open>null\<close>, and ignores every other value. If it does not reach
  the setter (the prototype was removed, or an object on the chain has an own property
  \<^verbatim>\<open>__proto__\<close>), it creates the own property.
\<close>

definition assignProp :: "'n resultObject \<Rightarrow> string \<Rightarrow> 'n jsval \<Rightarrow> bool \<Rightarrow> 'n resultObject" where
  "assignProp obj k v vPasses =
     (case obj of
        (kvs, passes) \<Rightarrow>
          if k \<noteq> ''__proto__'' \<or> map_of kvs k \<noteq> None then (AList.update k v kvs, passes)
          else if passes then
            (case v of
               Obj _ \<Rightarrow> (kvs, vPasses)
             | Arr _ \<Rightarrow> (kvs, vPasses)
             | Null \<Rightarrow> (kvs, False)
             | _ \<Rightarrow> (kvs, passes))
          else (AList.update k v kvs, passes))"

lemma getProp_smaller:
  "getProp node k = Inr (Arr ys) \<Longrightarrow> size_list size ys < size node"
proof (cases node)
  case (Obj kvs)
  assume "getProp node k = Inr (Arr ys)"
  with Obj have "(k, Arr ys) \<in> set kvs"
    by (auto split: option.splits dest: map_of_SomeD)
  then have "size (Arr ys) \<le> size_list (size_prod (\<lambda>_. 0) size) kvs"
    by (induction kvs) auto
  with Obj show ?thesis by simp
qed auto

text \<open>
  \<^verbatim>\<open>exportData(nodes)\<close>: \<open>exportEach\<close> is the \<^verbatim>\<open>forEach\<close> over the nodes that remain,
  with \<^verbatim>\<open>result\<close> as built so far (\<open>resultObj\<close>); \<open>exportItems\<close> is the \<^verbatim>\<open>map\<close> over the
  items of a list node. The object exported for the children of a dictionary passes a
  write of \<^verbatim>\<open>__proto__\<close> on when it has no own property of that name and its own
  prototype chain does; a fresh array always does.
\<close>

function exportEach :: "'n host \<Rightarrow> 'n jsval list \<Rightarrow> 'n resultObject \<Rightarrow> exn + 'n resultObject"
  and exportItems :: "'n host \<Rightarrow> 'n jsval list \<Rightarrow> exn + 'n jsval list" where
  "exportEach h [] resultObj = Inr resultObj"
| "exportEach h (node # nodes) resultObj =
     (case getProp node ''type'' of
        Inl e \<Rightarrow> Inl e
      | Inr t \<Rightarrow>
          (case getProp node ''value'' of
             Inl e \<Rightarrow> Inl e
           | Inr v \<Rightarrow>
               (case getProp node ''name'' of
                  Inl e \<Rightarrow> Inl e
                | Inr n \<Rightarrow>
                    (case jsString h n of
                       Inl e \<Rightarrow> Inl e
                     | Inr key \<Rightarrow>
                         if t = Str ''dictionary'' \<and> isArray v then
                           (case v of
                              Arr ys \<Rightarrow>
                                (case exportEach h ys emptyObject of
                                   Inl e \<Rightarrow> Inl e
                                 | Inr (kvs, passes) \<Rightarrow>
                                     exportEach h nodes
                                       (assignProp resultObj key (Obj kvs)
                                          (map_of kvs ''__proto__'' = None \<and> passes)))
                            | _ \<Rightarrow> Inl TypeError)
                         else if t = Str ''list'' \<and> isArray v then
                           (case v of
                              Arr ys \<Rightarrow>
                                (case exportItems h ys of
                                   Inl e \<Rightarrow> Inl e
                                 | Inr xs \<Rightarrow> exportEach h nodes (assignProp resultObj key (Arr xs) True))
                            | _ \<Rightarrow> Inl TypeError)
                         else exportEach h nodes (assignProp resultObj key v (passesProtoWrite v))))))"
| "exportItems h [] = Inr []"
| "exportItems h (item # items) =
     (case getProp item ''type'' of
        Inl e \<Rightarrow> Inl e
      | Inr t \<Rightarrow>
          (case getProp item ''value'' of
             Inl e \<Rightarrow> Inl e
           | Inr v \<Rightarrow>
               (case (if t = Str ''dictionary'' \<or> t = Str ''list'' then
                        (case v of
                           Arr ys \<Rightarrow>
                             (case exportEach h ys emptyObject of
                                Inl e \<Rightarrow> Inl e
                              | Inr (kvs, passes) \<Rightarrow> Inr (Obj kvs))
                         | _ \<Rightarrow> Inr v)
                      else Inr v) of
                  Inl e \<Rightarrow> Inl e
                | Inr x \<Rightarrow>
                    (case exportItems h items of
                       Inl e \<Rightarrow> Inl e
                     | Inr xs \<Rightarrow> Inr (x # xs)))))"
  by pat_completeness auto
termination
  by (relation "measure (\<lambda>a. case a of Inl (h, nodes, resultObj) \<Rightarrow> size_list size nodes
                                      | Inr (h, items) \<Rightarrow> size_list size items)")
     (auto dest: getProp_smaller)

text \<open>What \<^verbatim>\<open>exportData\<close> returns is the object: its own properties.\<close>

definition exportData :: "'n host \<Rightarrow> 'n jsval list \<Rightarrow> exn + 'n jsval" where
  "exportData h nodes =
     (case exportEach h nodes emptyObject of
        Inl e \<Rightarrow> Inl e
      | Inr (kvs, passes) \<Rightarrow> Inr (Obj kvs))"

text \<open>
  \<^verbatim>\<open>parseImport(obj)\<close>: \<open>importItems\<close> is the \<^verbatim>\<open>map\<close> over the elements of an array
  (index \<open>idx\<close> onwards), \<open>parseEntries\<close> the \<^verbatim>\<open>map\<close> over the keys with their values.
  The identifier of a node is drawn after its children's.
\<close>

fun importItems :: "'n host \<Rightarrow> nat \<Rightarrow> 'n jsval list \<Rightarrow> nat \<Rightarrow> 'n jsval list \<times> nat" where
  "importItems h idx [] s = ([], s)"
| "importItems h idx (item # items) s =
     (let (i, s1) = generateId h s;
          node = mkNode i (Str (indexString idx))
                   (Str (if typeof item = ''object'' then ''dictionary'' else typeof item)) item;
          (rest, s2) = importItems h (Suc idx) items s1
      in (node # rest, s2))"

definition importType :: "'n jsval \<Rightarrow> string" where
  "importType val =
     (let type = (if isArray val then ''list''
                  else if typeof val = ''object'' \<and> val \<noteq> Null then ''dictionary''
                  else typeof val)
      in if type = ''dictionary'' then ''dictionary''
         else if type = ''list'' then ''list''
         else if type = ''boolean'' then ''boolean''
         else if type = ''number'' then ''number''
         else ''text'')"

fun parseEntries :: "'n host \<Rightarrow> (string \<times> 'n jsval) list \<Rightarrow> nat \<Rightarrow> 'n jsval list \<times> nat" where
  "parseEntries h [] s = ([], s)"
| "parseEntries h ((key, val) # entries) s =
     (let finalType = importType val;
          (finalValue, s1) =
            (if finalType = ''dictionary'' then
               (case val of
                  Obj kvs \<Rightarrow> (let (children, s') = parseEntries h kvs s in (Arr children, s'))
                | _ \<Rightarrow> (val, s))
             else if finalType = ''list'' then
               (case val of
                  Arr items \<Rightarrow> (let (children, s') = importItems h 0 items s in (Arr children, s'))
                | _ \<Rightarrow> (val, s))
             else (val, s));
          (i, s2) = generateId h s1;
          node = mkNode i (Str key) (Str finalType) finalValue;
          (rest, s3) = parseEntries h entries s2
      in (node # rest, s3))"

definition parseImport :: "'n host \<Rightarrow> 'n jsval \<Rightarrow> nat \<Rightarrow> exn + ('n jsval list \<times> nat)" where
  "parseImport h obj s =
     (if obj = Undefined \<or> obj = Null then Inl TypeError
      else Inr (parseEntries h (ownProps obj) s))"

section \<open>Notions the properties are stated with\<close>

text \<open>
  The sequence reached from \<open>nodes\<close> by following \<open>names\<close> the way \<^verbatim>\<open>setDeepValue\<close>
  descends: each name must be that of an existing child (the first one carrying it)
  whose type is \<^verbatim>\<open>dictionary\<close> or \<^verbatim>\<open>list\<close>; the result is that child's payload.
\<close>

fun descend :: "'n jsval \<Rightarrow> string list \<Rightarrow> 'n jsval option" where
  "descend nodes [] = Some nodes"
| "descend nodes (key # rest) =
     (case nodes of
        Arr ns \<Rightarrow>
          (case findIndex ns key of
             Inr (Some i) \<Rightarrow>
               (case getProp (ns ! i) ''type'' of
                  Inr t \<Rightarrow>
                    if t = Str ''dictionary'' \<or> t = Str ''list'' then
                      (case getProp (ns ! i) ''value'' of Inr sub \<Rightarrow> descend sub rest | Inl e \<Rightarrow> None)
                    else None
                | Inl e \<Rightarrow> None)
           | _ \<Rightarrow> None)
      | _ \<Rightarrow> None)"

text \<open>
  What the specification says is created for path segments that do not exist yet: a
  dictionary per segment that is not the last, each holding the next, and at the end
  a leaf of the given kind and payload. The identifiers are the next draws, outermost
  first.
\<close>

fun createdPath :: "'n host \<Rightarrow> string list \<Rightarrow> 'n jsval \<Rightarrow> string \<Rightarrow> nat \<Rightarrow> 'n jsval list" where
  "createdPath h [] v k s = []"
| "createdPath h [key] v k s = [mkNode (randomId h s) (Str key) (Str k) v]"
| "createdPath h (key # rest) v k s =
     [mkNode (randomId h s) (Str key) (Str ''dictionary'') (Arr (createdPath h rest v k (Suc s)))]"

text \<open>
  A host for the examples: numbers are integers printed in decimal, identifiers are
  \<^verbatim>\<open>#0\<close>, \<^verbatim>\<open>#1\<close>, ... No example reaches \<^verbatim>\<open>new Function\<close> or \<^verbatim>\<open>Number(s)\<close>.
\<close>

definition intToString :: "int \<Rightarrow> string" where
  "intToString n = (if n < 0 then CHR ''-'' # indexString (nat (- n)) else indexString (nat n))"

definition exampleHost :: "int host" where
  "exampleHost =
     \<lparr> numberToString = intToString,
       numberIsFalsy = (\<lambda>n. n = 0),
       stringIsNaN = (\<lambda>s. True),
       runFunction = (\<lambda>s. Inl (Error ''not available'')),
       randomId = (\<lambda>n. CHR ''#'' # indexString n),
       typeErrorMessage = ''TypeError'' \<rparr>"

subsection \<open>Well-formed node trees\<close>

text \<open>
  A node of the specification's data model: an object with the four properties of
  \<^verbatim>\<open>DataNode\<close> and nothing else, with a string identifier, name and type, whose
  payload is a sequence of such nodes when the type is \<^verbatim>\<open>dictionary\<close> or \<^verbatim>\<open>list\<close>
  and a string, number or boolean otherwise.
\<close>

definition nodeKeys :: "string list" where
  "nodeKeys = [''id'', ''name'', ''type'', ''value'']"

fun isPrimitive :: "'n jsval \<Rightarrow> bool" where
  "isPrimitive (Str s) = True"
| "isPrimitive (Num n) = True"
| "isPrimitive (Bool b) = True"
| "isPrimitive v = False"

lemma map_of_smaller:
  "map_of kvs k = Some (Arr ys) \<Longrightarrow> y \<in> set ys \<Longrightarrow> size y < size (Obj kvs)"
proof -
  assume a: "map_of kvs k = Some (Arr ys)" and y: "y \<in> set ys"
  then have "getProp (Obj kvs) k = Inr (Arr ys)" by simp
  from getProp_smaller [OF this] have "size_list size ys < size (Obj kvs)" .
  moreover from y have "size y \<le> size_list size ys" by (induction ys) auto
  ultimately show ?thesis by simp
qed

function wfNode :: "'n jsval \<Rightarrow> bool" where
  "wfNode node =
     (case node of
        Obj kvs \<Rightarrow>
          list_all (\<lambda>k. k \<in> set nodeKeys) (map fst kvs)
          \<and> (case map_of kvs ''id'' of Some (Str i) \<Rightarrow> True | _ \<Rightarrow> False)
          \<and> (case map_of kvs ''name'' of Some (Str n) \<Rightarrow> True | _ \<Rightarrow> False)
          \<and> (case map_of kvs ''type'' of
                Some (Str t) \<Rightarrow>
                  (case map_of kvs ''value'' of
                     Some v \<Rightarrow>
                       if t = ''dictionary'' \<or> t = ''list''
                       then (case v of Arr ys \<Rightarrow> list_all wfNode ys | _ \<Rightarrow> False)
                       else isPrimitive v
                   | None \<Rightarrow> False)
              | _ \<Rightarrow> False)
      | _ \<Rightarrow> False)"
  by pat_completeness auto
termination
  by (relation "measure size") (auto dest: map_of_smaller)

declare wfNode.simps [simp del]

subsection \<open>Path resolution in the words of the specification\<close>

text \<open>
  At each step the current sequence is searched for a child whose name equals the
  segment; if none matches, the segment is read as a zero-based index (by \<open>ix\<close>) into
  the same sequence. If neither gives a node, or a segment that is not the last gives
  a node that is not a container, there is no result. On the last segment the node
  itself is the result.
\<close>

definition isContainer :: "'n jsval \<Rightarrow> bool" where
  "isContainer n = (getProp n ''type'' = Inr (Str ''dictionary'') \<or> getProp n ''type'' = Inr (Str ''list''))"

definition children :: "'n jsval \<Rightarrow> 'n jsval list" where
  "children n = (case getProp n ''value'' of Inr (Arr ys) \<Rightarrow> ys | _ \<Rightarrow> [])"

definition specLookup :: "(string \<Rightarrow> nat option) \<Rightarrow> 'n jsval list \<Rightarrow> string \<Rightarrow> 'n jsval option" where
  "specLookup ix xs seg =
     (case find (\<lambda>n. getProp n ''name'' = Inr (Str seg)) xs of
        Some n \<Rightarrow> Some n
      | None \<Rightarrow>
          (case ix seg of
             Some i \<Rightarrow> if i < length xs then Some (xs ! i) else None
           | None \<Rightarrow> None))"

fun specResolve :: "(string \<Rightarrow> nat option) \<Rightarrow> 'n jsval list \<Rightarrow> string list \<Rightarrow> 'n jsval option" where
  "specResolve ix xs [] = None"
| "specResolve ix xs (seg # rest) =
     (case specLookup ix xs seg of
        None \<Rightarrow> None
      | Some n \<Rightarrow>
          if rest = [] then Some n
          else if isContainer n then specResolve ix (children n) rest
          else None)"

text \<open>
  Two readings of a segment as an index: the decimal numerals, and what \<^verbatim>\<open>parseInt\<close>
  accepts.
\<close>

definition decimalIndex :: "string \<Rightarrow> nat option" where
  "decimalIndex seg =
     (if seg \<noteq> [] \<and> list_all (\<lambda>c. digitValue c < 10) seg
      then Some (foldl (\<lambda>a c. a * 10 + digitValue c) 0 seg) else None)"

definition parseIntIndex :: "string \<Rightarrow> nat option" where
  "parseIntIndex seg =
     (case parseInt seg of Some i \<Rightarrow> if 0 \<le> i then Some (nat i) else None | None \<Rightarrow> None)"

definition orUndefined :: "'n jsval option \<Rightarrow> 'n jsval" where
  "orUndefined r = (case r of Some n \<Rightarrow> n | None \<Rightarrow> Undefined)"

text \<open>Two leaves named \<^verbatim>\<open>a\<close> and \<^verbatim>\<open>b\<close>, for the examples.\<close>

definition rootAB :: "int jsval list" where
  "rootAB = [mkNode ''1'' (Str ''a'') (Str ''text'') (Str ''x''),
             mkNode ''2'' (Str ''b'') (Str ''text'') (Str ''y'')]"

subsection \<open>The reference tokens of a formula\<close>

text \<open>
  The paths of the tokens \<^verbatim>\<open>{{path}}\<close> of a formula, in the order the regular
  expression finds them, and what it means that one does not resolve.
\<close>

function referencePaths :: "string \<Rightarrow> string list" where
  "referencePaths [] = []"
| "referencePaths (c # cs) =
     (case matchReference (c # cs) of
        Some (path, r) \<Rightarrow> path # referencePaths r
      | None \<Rightarrow> referencePaths cs)"
  by pat_completeness auto
termination
  by (relation "measure length") (auto dest: matchReference_shorter)

definition unresolved :: "'n host \<Rightarrow> 'n jsval list \<Rightarrow> string \<Rightarrow> bool" where
  "unresolved h root path = (resolvePath h root path = Inr Undefined)"



subsection \<open>JSON documents and their comparison\<close>

lemma pair_smaller:
  "(a, b) \<in> set kvs \<Longrightarrow> size b < Suc (size_list (size_prod (\<lambda>x. 0) size) kvs)"
  by (induction kvs) auto

lemma elem_smaller: "x \<in> set xs \<Longrightarrow> size x < Suc (size_list size xs)"
  by (induction xs) auto

text \<open>
  The JSON objects of claim C1: built only from strings, numbers, booleans, objects
  (with distinct keys, as every parsed object has) and arrays whose elements are such
  values but not arrays.
\<close>

function plainJson :: "'n jsval \<Rightarrow> bool" where
  "plainJson (Obj kvs) = (distinct (map fst kvs) \<and> list_all plainJson (map snd kvs))"
| "plainJson (Arr xs) = list_all (\<lambda>x. \<not> isArray x \<and> plainJson x) xs"
| "plainJson (Str s) = True"
| "plainJson (Num n) = True"
| "plainJson (Bool b) = True"
| "plainJson Null = False"
| "plainJson Undefined = False"
  by pat_completeness auto
termination
  by (relation "measure size") (auto simp: pair_smaller elem_smaller)

text \<open>
  No object that the import walks through (an object that is not inside an array)
  has the key \<^verbatim>\<open>__proto__\<close>.
\<close>

function protoFree :: "'n jsval \<Rightarrow> bool" where
  "protoFree v =
     (case v of
        Obj kvs \<Rightarrow> ''__proto__'' \<notin> set (map fst kvs) \<and> list_all protoFree (map snd kvs)
      | _ \<Rightarrow> True)"
  by pat_completeness auto
termination
  by (relation "measure size") (auto simp: pair_smaller)

declare protoFree.simps [simp del]

text \<open>
  Deep equality of two values: objects have the same own keys, in any order, with
  deeply equal values under each; arrays have the same length and deeply equal
  elements position by position; other values are equal.
\<close>

function deepEqual :: "'n jsval \<Rightarrow> 'n jsval \<Rightarrow> bool" where
  "deepEqual a b =
     (case a of
        Obj xs \<Rightarrow>
          (case b of
             Obj ys \<Rightarrow>
               set (map fst xs) = set (map fst ys)
               \<and> list_all (\<lambda>k. case map_of xs k of
                                  Some u \<Rightarrow> (case map_of ys k of Some v \<Rightarrow> deepEqual u v | None \<Rightarrow> False)
                                | None \<Rightarrow> False) (map fst xs)
           | _ \<Rightarrow> False)
      | Arr xs \<Rightarrow>
          (case b of
             Arr ys \<Rightarrow> length xs = length ys \<and> list_all (\<lambda>(u, v). deepEqual u v) (zip xs ys)
           | _ \<Rightarrow> False)
      | _ \<Rightarrow> a = b)"
  by pat_completeness auto
termination
  by (relation "measure (\<lambda>(a, b). size a)")
     (auto dest!: map_of_SomeD set_zip_leftD simp: pair_smaller elem_smaller)

declare deepEqual.simps [simp del]

text \<open>
  What the specification says is created for path segments that do not exist yet, read
  off a node property by property: \<open>node\<close> is the node for the segments \<open>parts\<close> when
  \<open>s\<close> is the state of the identifier generator. It is an object with the four
  properties of \<^verbatim>\<open>DataNode\<close>; its identifier is the next result of \<^verbatim>\<open>generateId\<close> and its
  name the first segment. For the last segment it has the given kind and payload. For
  any other segment it is a dictionary whose payload is a sequence of one node, the
  one for the remaining segments with the following identifiers.
\<close>

fun createdAs :: "'n host \<Rightarrow> string list \<Rightarrow> 'n jsval \<Rightarrow> string \<Rightarrow> nat \<Rightarrow> 'n jsval \<Rightarrow> bool" where
  "createdAs h [] v k s node = False"
| "createdAs h [key] v k s node =
     ((case node of Obj kvs \<Rightarrow> map fst kvs = nodeKeys | _ \<Rightarrow> False)
      \<and> getProp node ''id'' = Inr (Str (randomId h s))
      \<and> getProp node ''name'' = Inr (Str key)
      \<and> getProp node ''type'' = Inr (Str k)
      \<and> getProp node ''value'' = Inr v)"
| "createdAs h (key # rest) v k s node =
     ((case node of Obj kvs \<Rightarrow> map fst kvs = nodeKeys | _ \<Rightarrow> False)
      \<and> getProp node ''id'' = Inr (Str (randomId h s))
      \<and> getProp node ''name'' = Inr (Str key)
      \<and> getProp node ''type'' = Inr (Str ''dictionary'')
      \<and> (case getProp node ''value'' of
            Inr (Arr [child]) \<Rightarrow> createdAs h rest v k (Suc s) child
          | _ \<Rightarrow> False))"

text \<open>
  The identifiers of the nodes of a sequence, at every depth: of each node its own,
  then those of its payload when that is a sequence.
\<close>

function nodeIds :: "'n jsval list \<Rightarrow> 'n jsval list" where
  "nodeIds [] = []"
| "nodeIds (node # nodes) =
     (case getProp node ''id'' of Inr i \<Rightarrow> [i] | Inl e \<Rightarrow> [])
     @ (case getProp node ''value'' of Inr (Arr ys) \<Rightarrow> nodeIds ys | _ \<Rightarrow> [])
     @ nodeIds nodes"
  by pat_completeness auto
termination
  by (relation "measure (size_list size)") (auto dest: getProp_smaller)

section \<open>Well-formed nodes\<close>

lemma wfNode_Obj: "wfNode n \<Longrightarrow> \<exists>kvs. n = Obj kvs"
  by (cases n) (auto simp: wfNode.simps)

lemma wfNode_truthy: "wfNode n \<Longrightarrow> truthy h n"
  by (auto dest: wfNode_Obj)

lemma wfNode_ObjD:
  assumes "wfNode (Obj kvs)"
  shows "\<exists>t v. map_of kvs ''type'' = Some (Str t) \<and> map_of kvs ''value'' = Some v
           \<and> (if t = ''dictionary'' \<or> t = ''list''
               then \<exists>ys. v = Arr ys \<and> list_all wfNode ys else isPrimitive v)"
proof -
  from assms obtain t where t: "map_of kvs ''type'' = Some (Str t)"
    by (subst (asm) wfNode.simps) (auto split: option.splits jsval.splits)
  from assms t obtain v where v: "map_of kvs ''value'' = Some v"
    by (subst (asm) wfNode.simps) (auto split: option.splits)
  from assms t v have body:
    "if t = ''dictionary'' \<or> t = ''list'' then (case v of Arr ys \<Rightarrow> list_all wfNode ys | _ \<Rightarrow> False)
     else isPrimitive v"
    by (subst (asm) wfNode.simps) simp
  have "if t = ''dictionary'' \<or> t = ''list''
        then \<exists>ys. v = Arr ys \<and> list_all wfNode ys else isPrimitive v"
    using body by (cases v) (auto split: if_splits)
  with t v show ?thesis by blast
qed

lemma wfNode_container:
  assumes "wfNode n"
  shows "if isContainer n then \<exists>ys. getProp n ''value'' = Inr (Arr ys) \<and> list_all wfNode ys
         else \<exists>v. getProp n ''value'' = Inr v \<and> isPrimitive v"
proof -
  from assms obtain kvs where n: "n = Obj kvs" using wfNode_Obj by blast
  from wfNode_ObjD [OF assms [unfolded n]] show ?thesis
    unfolding n isContainer_def by (auto split: if_splits)
qed



section \<open>Properties of setDeepValue\<close>

lemma findIndex_Some:
  "findIndex ns key = Inr (Some i) \<Longrightarrow> i < length ns \<and> getProp (ns ! i) ''name'' = Inr (Str key)"
proof (induction ns arbitrary: i)
  case Nil
  then show ?case by simp
next
  case (Cons n ns)
  then show ?case
    by (cases i) (auto split: sum.splits if_splits option.splits)
qed

lemma getProp_Str_Obj:
  "getProp n k = Inr (Str x) \<Longrightarrow> \<exists>kvs. n = Obj kvs \<and> map_of kvs k = Some (Str x)"
  by (cases n) (auto split: option.splits)

lemma findIndex_update:
  "findIndex ns key = Inr (Some i) \<Longrightarrow> getProp n' ''name'' = Inr (Str key)
   \<Longrightarrow> findIndex (ns[i := n']) key = Inr (Some i)"
proof (induction ns arbitrary: i)
  case Nil
  then show ?case by simp
next
  case (Cons n ns)
  then show ?case
    by (cases i) (auto split: sum.splits if_splits option.splits)
qed

lemma findIndex_append:
  "findIndex ns key = Inr None \<Longrightarrow> getProp n' ''name'' = Inr (Str key)
   \<Longrightarrow> findIndex (ns @ [n']) key = Inr (Some (length ns))"
  by (induction ns) (auto split: sum.splits if_splits option.splits)

lemma take_nth_drop_update:
  "i < length ns \<Longrightarrow> take i ns @ [x] @ drop (i + 1) ns = ns[i := x]"
  by (simp add: upd_conv_take_nth_drop)

lemma map_of_defineProp:
  "map_of (defineProp kvs k v) k' = (if k' = k then Some v else map_of kvs k')"
  by (simp add: defineProp_def update_conv')

lemma defineProp_same:
  "map_of kvs k = Some v \<Longrightarrow> defineProp kvs k v = kvs"
  by (simp add: defineProp_def update_triv)

lemma defineProp_value_type_again:
  "defineProp (defineProp (defineProp (defineProp kvs ''value'' v) ''type'' t) ''value'' v) ''type'' t
   = defineProp (defineProp kvs ''value'' v) ''type'' t"
  by (simp add: defineProp_def update_triv update_conv')

lemma sdv_not_array:
  "\<forall>ns. nodes \<noteq> Arr ns \<Longrightarrow> setDeepValue h nodes p v k s = Inl TypeError"
  using split_dot_nonempty [of p]
  by (cases nodes; cases "split_dot p") (auto simp: setDeepValue.simps)

lemma sdv_findIndex_throws:
  "findIndex ns (hd (split_dot p)) = Inl e \<Longrightarrow> setDeepValue h (Arr ns) p v k s = Inl e"
  using split_dot_nonempty [of p]
  by (cases "split_dot p") (auto simp: setDeepValue.simps)

lemma sdv_final_existing:
  "split_dot p = [key] \<Longrightarrow> findIndex ns key = Inr (Some i) \<Longrightarrow>
   setDeepValue h (Arr ns) p v k s =
     Inr (Arr (ns[i := Obj (defineProp (defineProp (ownProps (ns ! i)) ''value'' v) ''type'' (Str k))]), s)"
  using findIndex_Some [of ns key i]
  by (simp add: setDeepValue.simps [of h "Arr ns" p] upd_conv_take_nth_drop)

lemma sdv_final_new:
  "split_dot p = [key] \<Longrightarrow> findIndex ns key = Inr None \<Longrightarrow>
   setDeepValue h (Arr ns) p v k s =
     Inr (Arr (ns @ [mkNode (randomId h s) (Str key) (Str k) v]), Suc s)"
  by (simp add: setDeepValue.simps [of h "Arr ns" p] generateId_def)

lemma sdv_inner_existing:
  "split_dot p = key # rest \<Longrightarrow> rest \<noteq> [] \<Longrightarrow> findIndex ns key = Inr (Some i) \<Longrightarrow>
   setDeepValue h (Arr ns) p v k s =
     (case getProp (ns ! i) ''type'' of
        Inl e \<Rightarrow> Inl e
      | Inr t \<Rightarrow>
          if t \<noteq> Str ''dictionary'' \<and> t \<noteq> Str ''list'' then Inr (Arr ns, s)
          else
            (case getProp (ns ! i) ''value'' of
               Inl e \<Rightarrow> Inl e
             | Inr sub \<Rightarrow>
                 (case setDeepValue h sub (join_dot rest) v k s of
                    Inl e \<Rightarrow> Inl e
                  | Inr (sub', s') \<Rightarrow>
                      Inr (Arr (ns[i := Obj (defineProp (ownProps (ns ! i)) ''value'' sub')]), s'))))"
  using findIndex_Some [of ns key i]
  by (simp add: setDeepValue.simps [of h "Arr ns" p] upd_conv_take_nth_drop
           split: sum.splits prod.splits)

lemma sdv_inner_new:
  "split_dot p = key # rest \<Longrightarrow> rest \<noteq> [] \<Longrightarrow> findIndex ns key = Inr None \<Longrightarrow>
   setDeepValue h (Arr ns) p v k s =
     (case setDeepValue h (Arr []) (join_dot rest) v k (Suc s) of
        Inl e \<Rightarrow> Inl e
      | Inr (sub, s') \<Rightarrow>
          Inr (Arr (ns @ [mkNode (randomId h s) (Str key) (Str ''dictionary'') sub]), s'))"
  by (simp add: setDeepValue.simps [of h "Arr ns" p] generateId_def
           split: sum.splits prod.splits)

lemma setDeepValue_again:
  "split_dot p = parts \<Longrightarrow> setDeepValue h nodes p v k s = Inr (t, s1)
   \<Longrightarrow> setDeepValue h t p v k s' = Inr (t, s')"
proof (induction parts arbitrary: p nodes t s s1 s')
  case Nil
  then show ?case using split_dot_nonempty by blast
next
  case (Cons key rest)
  note sp = Cons.prems(1)
  from Cons.prems(2) obtain ns where nodes: "nodes = Arr ns"
    using sdv_not_array [of nodes h p v k s] by auto
  from Cons.prems(2) obtain r where r: "findIndex ns key = Inr r"
    using sdv_findIndex_throws [of ns p _ h v k s] sp nodes
    by (cases "findIndex ns key") auto
  show ?case
  proof (cases r)
    case None
    with r have fi: "findIndex ns key = Inr None" by simp
    show ?thesis
    proof (cases "rest = []")
      case True
      let ?n = "mkNode (randomId h s) (Str key) (Str k) v"
      from True sp have sp1: "split_dot p = [key]" by simp
      from Cons.prems(2) have t: "t = Arr (ns @ [?n])"
        by (simp add: nodes sdv_final_new [OF sp1 fi])
      have "findIndex (ns @ [?n]) key = Inr (Some (length ns))"
        by (rule findIndex_append [OF fi]) (simp add: mkNode_def)
      from sdv_final_existing [OF sp1 this, of h v k s'] show ?thesis
        by (simp add: t mkNode_def defineProp_def)
    next
      case False
      from Cons.prems(2) obtain sub where
        sub: "setDeepValue h (Arr []) (join_dot rest) v k (Suc s) = Inr (sub, s1)"
        and t: "t = Arr (ns @ [mkNode (randomId h s) (Str key) (Str ''dictionary'') sub])"
        by (auto simp: nodes sdv_inner_new [OF sp False fi] split: sum.splits)
      let ?n = "mkNode (randomId h s) (Str key) (Str ''dictionary'') sub"
      have ih: "setDeepValue h sub (join_dot rest) v k s' = Inr (sub, s')"
        using Cons.IH [OF split_dot_rest(1) [OF sp False] sub] .
      have "findIndex (ns @ [?n]) key = Inr (Some (length ns))"
        by (rule findIndex_append [OF fi]) (simp add: mkNode_def)
      from sdv_inner_existing [OF sp False this, of h v k s'] ih show ?thesis
        by (simp add: t mkNode_def defineProp_def)
    qed
  next
    case (Some i)
    with r have fi: "findIndex ns key = Inr (Some i)" by simp
    from findIndex_Some [OF fi] have i: "i < length ns"
      and nm: "getProp (ns ! i) ''name'' = Inr (Str key)" by simp_all
    from getProp_Str_Obj [OF nm] obtain kvs where kvs: "ns ! i = Obj kvs"
      and kn: "map_of kvs ''name'' = Some (Str key)" by blast
    show ?thesis
    proof (cases "rest = []")
      case True
      from True sp have sp1: "split_dot p = [key]" by simp
      let ?n = "Obj (defineProp (defineProp kvs ''value'' v) ''type'' (Str k))"
      from Cons.prems(2) have t: "t = Arr (ns[i := ?n])"
        by (simp add: nodes sdv_final_existing [OF sp1 fi] kvs)
      have "findIndex (ns[i := ?n]) key = Inr (Some i)"
        by (rule findIndex_update [OF fi]) (simp add: map_of_defineProp kn)
      from sdv_final_existing [OF sp1 this, of h v k s'] i show ?thesis
        by (simp add: t defineProp_value_type_again)
    next
      case False
      note ie = sdv_inner_existing [OF sp False]
      show ?thesis
      proof (cases "map_of kvs ''type'' = Some (Str ''dictionary'') \<or> map_of kvs ''type'' = Some (Str ''list'')")
        case blocked: False
        then have "t = nodes \<and> s1 = s" using Cons.prems(2)
          by (auto simp: nodes ie [OF fi] kvs split: option.splits)
        then show ?thesis using blocked
          by (auto simp: nodes ie [OF fi] kvs split: option.splits)
      next
        case cont: True
        define sub where "sub = (case map_of kvs ''value'' of Some x \<Rightarrow> x | None \<Rightarrow> Undefined)"
        from Cons.prems(2) cont obtain sub' where
          rec: "setDeepValue h sub (join_dot rest) v k s = Inr (sub', s1)"
          and t: "t = Arr (ns[i := Obj (defineProp kvs ''value'' sub')])"
          by (auto simp: nodes ie [OF fi] kvs sub_def split: sum.splits)
        let ?n = "Obj (defineProp kvs ''value'' sub')"
        have ih: "setDeepValue h sub' (join_dot rest) v k s' = Inr (sub', s')"
          using Cons.IH [OF split_dot_rest(1) [OF sp False] rec] .
        have "findIndex (ns[i := ?n]) key = Inr (Some i)"
          by (rule findIndex_update [OF fi]) (simp add: map_of_defineProp kn)
        from ie [OF this, of h v k s'] i ih cont show ?thesis
          by (auto simp: t map_of_defineProp defineProp_same)
      qed
    qed
  qed
qed

lemma sdv_creates_parts:
  "split_dot p = parts \<Longrightarrow> findIndex ns (hd parts) = Inr None \<Longrightarrow>
   setDeepValue h (Arr ns) p v k s = Inr (Arr (ns @ createdPath h parts v k s), s + length parts)"
proof (induction parts arbitrary: p ns s)
  case Nil
  then show ?case using split_dot_nonempty by blast
next
  case (Cons key rest)
  from Cons.prems have fi: "findIndex ns key = Inr None" by simp
  show ?case
  proof (cases rest)
    case Nil
    with Cons.prems(1) have "split_dot p = [key]" by simp
    from sdv_final_new [OF this fi] Nil show ?thesis by simp
  next
    case (Cons key' rest')
    then have ne: "rest \<noteq> []" by simp
    have "setDeepValue h (Arr []) (join_dot rest) v k (Suc s)
          = Inr (Arr ([] @ createdPath h rest v k (Suc s)), Suc s + length rest)"
      by (rule Cons.IH [OF split_dot_rest(1) [OF Cons.prems(1) ne]]) simp
    with sdv_inner_new [OF Cons.prems(1) ne fi, of h v k s] Cons show ?thesis by simp
  qed
qed

lemma descend_Cons_Some:
  assumes "descend root (a # pre) = Some r"
  obtains ms j kvs sub where "root = Arr ms" "findIndex ms a = Inr (Some j)" "j < length ms"
    "ms ! j = Obj kvs"
    "map_of kvs ''type'' = Some (Str ''dictionary'') \<or> map_of kvs ''type'' = Some (Str ''list'')"
    "getProp (ms ! j) ''value'' = Inr sub" "descend sub pre = Some r"
proof -
  from assms obtain ms where ms: "root = Arr ms" by (cases root) auto
  from assms ms obtain j where j: "findIndex ms a = Inr (Some j)"
    by (auto split: sum.splits option.splits)
  from findIndex_Some [OF j] have jl: "j < length ms"
    and "getProp (ms ! j) ''name'' = Inr (Str a)" by simp_all
  then obtain kvs where kvs: "ms ! j = Obj kvs" using getProp_Str_Obj by blast
  from assms ms j kvs obtain sub where "getProp (ms ! j) ''value'' = Inr sub" "descend sub pre = Some r"
    and "map_of kvs ''type'' = Some (Str ''dictionary'') \<or> map_of kvs ''type'' = Some (Str ''list'')"
    by (auto split: sum.splits option.splits if_splits)
  with ms j jl kvs that show thesis by blast
qed

lemma descend_not_Undefined: "descend Undefined pre = Some (Arr ns) \<Longrightarrow> False"
  by (cases pre) auto

lemma sdv_blocked:
  "split_dot p = pre @ key # rest \<Longrightarrow> rest \<noteq> [] \<Longrightarrow> descend root pre = Some (Arr ns) \<Longrightarrow>
   findIndex ns key = Inr (Some i) \<Longrightarrow> getProp (ns ! i) ''type'' = Inr t \<Longrightarrow>
   t \<noteq> Str ''dictionary'' \<Longrightarrow> t \<noteq> Str ''list'' \<Longrightarrow>
   setDeepValue h root p v k s = Inr (root, s)"
proof (induction pre arbitrary: p root)
  case Nil
  then have "root = Arr ns" by simp
  with sdv_inner_existing [of p key rest ns i h v k s] Nil show ?case by simp
next
  case (Cons a pre)
  from Cons.prems(3) obtain ms j kvs sub where ms: "root = Arr ms"
    and j: "findIndex ms a = Inr (Some j)" and jl: "j < length ms" and kvs: "ms ! j = Obj kvs"
    and ty: "map_of kvs ''type'' = Some (Str ''dictionary'') \<or> map_of kvs ''type'' = Some (Str ''list'')"
    and sub: "getProp (ms ! j) ''value'' = Inr sub" and d: "descend sub pre = Some (Arr ns)"
    by (rule descend_Cons_Some)
  from Cons.prems(1) have sp: "split_dot p = a # (pre @ key # rest)" by simp
  have ne: "pre @ key # rest \<noteq> []" by simp
  have ih: "setDeepValue h sub (join_dot (pre @ key # rest)) v k s = Inr (sub, s)"
    by (rule Cons.IH [OF split_dot_rest(1) [OF sp ne] Cons.prems(2) d Cons.prems(4-7)])
  from sub kvs d have "map_of kvs ''value'' = Some sub"
    using descend_not_Undefined by (auto split: option.splits)
  then have "defineProp kvs ''value'' sub = kvs" by (rule defineProp_same)
  with sdv_inner_existing [OF sp ne j, of h v k s] ih ty sub kvs ms show ?case
    by (auto simp: list_update_same_conv jl)
qed

text \<open>On a well-formed tree \<^verbatim>\<open>setDeepValue\<close> throws nothing.\<close>

lemma findIndex_wf: "list_all wfNode ns \<Longrightarrow> \<exists>r. findIndex ns key = Inr r"
proof (induction ns)
  case Nil
  show ?case by simp
next
  case (Cons n ns)
  then obtain kvs where "n = Obj kvs" using wfNode_Obj by auto
  with Cons show ?case by (auto split: option.splits)
qed

lemma setDeepValue_total_parts:
  "split_dot p = parts \<Longrightarrow> list_all wfNode ns \<Longrightarrow>
   \<exists>t s1. setDeepValue h (Arr ns) p v k s = Inr (t, s1)"
proof (induction parts arbitrary: p ns)
  case Nil
  then show ?case using split_dot_nonempty by blast
next
  case (Cons key rest)
  from findIndex_wf [OF Cons.prems(2)] obtain r where r: "findIndex ns key = Inr r" by blast
  show ?case
  proof (cases r)
    case None
    with r sdv_creates_parts [OF Cons.prems(1), of ns h v k s] show ?thesis by simp
  next
    case (Some i)
    with r have fi: "findIndex ns key = Inr (Some i)" by simp
    show ?thesis
    proof (cases "rest = []")
      case True
      with Cons.prems(1) sdv_final_existing [OF _ fi, of p h v k s] show ?thesis by simp
    next
      case False
      from findIndex_Some [OF fi] Cons.prems(2) have wn: "wfNode (ns ! i)"
        by (simp add: list_all_length)
      from wn obtain kvs where kvs: "ns ! i = Obj kvs" using wfNode_Obj by blast
      note ie = sdv_inner_existing [OF Cons.prems(1) False fi, of h v k s]
      show ?thesis
      proof (cases "isContainer (ns ! i)")
        case nc: False
        with kvs ie show ?thesis by (auto simp: isContainer_def split: option.splits)
      next
        case c: True
        with wfNode_container [OF wn] obtain ys where ys: "getProp (ns ! i) ''value'' = Inr (Arr ys)"
          and wys: "list_all wfNode ys" by auto
        from Cons.IH [OF split_dot_rest(1) [OF Cons.prems(1) False] wys]
        obtain t' s1 where "setDeepValue h (Arr ys) (join_dot rest) v k s = Inr (t', s1)" by blast
        with c ys kvs ie show ?thesis by (auto simp: isContainer_def split: option.splits)
      qed
    qed
  qed
qed

lemma createdPath_createdAs:
  "parts \<noteq> [] \<Longrightarrow> \<exists>node. createdPath h parts v k s = [node] \<and> createdAs h parts v k s node"
  by (induction h parts v k s rule: createdPath.induct) (auto simp: mkNode_def nodeKeys_def)

lemma sdv_at_depth:
  "split_dot p = pre @ q \<Longrightarrow> q \<noteq> [] \<Longrightarrow> descend root pre = Some sub \<Longrightarrow>
   setDeepValue h sub (join_dot q) v k s = Inr (sub', s') \<Longrightarrow>
   \<exists>t. setDeepValue h root p v k s = Inr (t, s') \<and> descend t pre = Some sub'"
proof (induction pre arbitrary: p root)
  case Nil
  then have "join_dot q = p" "root = sub" using join_split_dot [of p] by simp_all
  with Nil show ?case by simp
next
  case (Cons a pre)
  from Cons.prems(3) obtain ms j kvs suba where ms: "root = Arr ms"
    and j: "findIndex ms a = Inr (Some j)" and jl: "j < length ms" and kvs: "ms ! j = Obj kvs"
    and ty: "map_of kvs ''type'' = Some (Str ''dictionary'') \<or> map_of kvs ''type'' = Some (Str ''list'')"
    and suba: "getProp (ms ! j) ''value'' = Inr suba" and d: "descend suba pre = Some sub"
    by (rule descend_Cons_Some)
  from Cons.prems(1) have sp: "split_dot p = a # (pre @ q)" by simp
  from Cons.prems(2) have ne: "pre @ q \<noteq> []" by simp
  from Cons.IH [OF split_dot_rest(1) [OF sp ne] Cons.prems(2) d Cons.prems(4)]
  obtain t' where t': "setDeepValue h suba (join_dot (pre @ q)) v k s = Inr (t', s')"
    and dt': "descend t' pre = Some sub'" by blast
  let ?n = "Obj (defineProp kvs ''value'' t')"
  have nm: "getProp ?n ''name'' = Inr (Str a)"
    using findIndex_Some [OF j] kvs by (simp add: map_of_defineProp)
  have fi: "findIndex (ms[j := ?n]) a = Inr (Some j)"
    by (rule findIndex_update [OF j nm])
  from sdv_inner_existing [OF sp ne j, of h v k s] t' ty suba kvs ms
  have "setDeepValue h root p v k s = Inr (Arr (ms[j := ?n]), s')" by auto
  moreover have "descend (Arr (ms[j := ?n])) (a # pre) = Some sub'"
    using fi jl ty dt' by (auto simp: map_of_defineProp)
  ultimately show ?case by blast
qed

lemma split_dot_suffix:
  assumes "split_dot p = pre @ q" "q \<noteq> []"
  shows "split_dot (join_dot q) = q"
proof -
  have "\<forall>x \<in> set q. CHR ''.'' \<notin> set x"
    using split_dot_parts_nodot [of _ p] assms(1) by simp
  with assms(2) show ?thesis by (rule split_join_dot)
qed

subsection \<open>C2: applying the same write twice\<close>

text \<open>
  Claim C2. \<^verbatim>\<open>deepSet\<close> is idempotent: whenever \<^verbatim>\<open>setDeepValue(root, p, v, k)\<close> returns a
  tree \<open>t\<close>, applying the same path, value and kind to \<open>t\<close> returns \<open>t\<close> itself, whatever
  the state of the identifier generator, and draws no identifier. The first call
  can throw only when the tree is not well-formed: on a well-formed tree it returns.
\<close>

theorem setDeepValue_idempotent:
  "(setDeepValue h root p v k s = Inr (t, s1) \<longrightarrow> (\<forall>s'. setDeepValue h t p v k s' = Inr (t, s')))
   \<and> (list_all wfNode ns \<longrightarrow> (\<exists>t s1. setDeepValue h (Arr ns) p v k s = Inr (t, s1)))"
  using setDeepValue_again [OF refl] setDeepValue_total_parts [OF refl]
  by blast

theorem setDeepValue_idempotent_witness:
  "setDeepValue exampleHost (Arr []) ''config.theme'' (Str ''dark'') ''text'' 0 =
     Inr (Arr [mkNode ''#0'' (Str ''config'') (Str ''dictionary'')
                 (Arr [mkNode ''#1'' (Str ''theme'') (Str ''text'') (Str ''dark'')])], 2)
   \<and> setDeepValue exampleHost
        (Arr [mkNode ''#0'' (Str ''config'') (Str ''dictionary'')
                 (Arr [mkNode ''#1'' (Str ''theme'') (Str ''text'') (Str ''dark'')])])
        ''config.theme'' (Str ''dark'') ''text'' 7 =
     Inr (Arr [mkNode ''#0'' (Str ''config'') (Str ''dictionary'')
                 (Arr [mkNode ''#1'' (Str ''theme'') (Str ''text'') (Str ''dark'')])], 7)"
proof -
  have first: "setDeepValue exampleHost (Arr []) ''config.theme'' (Str ''dark'') ''text'' 0 =
     Inr (Arr [mkNode ''#0'' (Str ''config'') (Str ''dictionary'')
                 (Arr [mkNode ''#1'' (Str ''theme'') (Str ''text'') (Str ''dark'')])], 2)"
    by (simp add: setDeepValue.simps generateId_def exampleHost_def indexString.simps
                  digitChar_def numeral_2_eq_2)
  from setDeepValue_idempotent [of exampleHost "Arr []" "''config.theme''" "Str ''dark''" "''text''" 0]
    first show ?thesis by simp
qed

subsection \<open>C5: segments that do not exist yet\<close>

text \<open>
  Claim C5, as amended. When the walk has descended through existing containers along
  \<open>pre\<close> and the next segment \<open>key\<close> names no child of the sequence reached,
  \<^verbatim>\<open>setDeepValue\<close> appends to that sequence one new node named \<open>key\<close>. If segments
  remain, it is a dictionary whose payload is the one node created in the same way for
  them. If \<open>key\<close> is the last segment, it is a leaf with the given name, kind and value.
  Each created node has the four properties of \<^verbatim>\<open>DataNode\<close> and, as identifier, the next
  result of \<^verbatim>\<open>generateId\<close>, outermost node first; one identifier is drawn per created
  node. Nothing compares an identifier with those of the tree. The witness is the
  specification's example \<^verbatim>\<open>deepSet([], "a.b.c", 5, Number)\<close>.
\<close>

theorem setDeepValue_creates_missing:
  assumes "split_dot p = pre @ key # rest"
    and "descend root pre = Some (Arr ns)"
    and "findIndex ns key = Inr None"
  shows "\<exists>t node. setDeepValue h root p v k s = Inr (t, s + length (key # rest))
           \<and> descend t pre = Some (Arr (ns @ [node]))
           \<and> createdAs h (key # rest) v k s node"
proof -
  have q: "split_dot (join_dot (key # rest)) = key # rest"
    by (rule split_dot_suffix [OF assms(1)]) simp
  have "setDeepValue h (Arr ns) (join_dot (key # rest)) v k s
        = Inr (Arr (ns @ createdPath h (key # rest) v k s), s + length (key # rest))"
    by (rule sdv_creates_parts [OF q]) (simp add: assms(3))
  from sdv_at_depth [OF assms(1) _ assms(2) this]
  obtain t where t: "setDeepValue h root p v k s = Inr (t, s + length (key # rest))"
    "descend t pre = Some (Arr (ns @ createdPath h (key # rest) v k s))" by auto
  from createdPath_createdAs [of "key # rest" h v k s] obtain node where
    "createdPath h (key # rest) v k s = [node]" "createdAs h (key # rest) v k s node" by auto
  with t show ?thesis by auto
qed

theorem setDeepValue_creates_missing_witness:
  "setDeepValue exampleHost (Arr []) ''a.b.c'' (Num 5) ''number'' 0 =
     Inr (Arr [Obj [(''id'', Str ''#0''), (''name'', Str ''a''), (''type'', Str ''dictionary''),
                    (''value'',
                     Arr [Obj [(''id'', Str ''#1''), (''name'', Str ''b''), (''type'', Str ''dictionary''),
                               (''value'',
                                Arr [Obj [(''id'', Str ''#2''), (''name'', Str ''c''),
                                          (''type'', Str ''number''), (''value'', Num 5)]])]])]], 3)
   \<and> createdAs exampleHost [''a'', ''b'', ''c''] (Num 5) ''number'' 0
        (Obj [(''id'', Str ''#0''), (''name'', Str ''a''), (''type'', Str ''dictionary''),
              (''value'',
               Arr [Obj [(''id'', Str ''#1''), (''name'', Str ''b''), (''type'', Str ''dictionary''),
                         (''value'',
                          Arr [Obj [(''id'', Str ''#2''), (''name'', Str ''c''),
                                    (''type'', Str ''number''), (''value'', Num 5)]])]])])"
proof -
  have sp: "split_dot ''a.b.c'' = [] @ ''a'' # [''b'', ''c'']" by simp
  have d: "descend (Arr []) [] = Some (Arr ([] :: int jsval list))" by simp
  have f: "findIndex ([] :: int jsval list) ''a'' = Inr None" by simp
  have e: "setDeepValue exampleHost (Arr []) ''a.b.c'' (Num 5) ''number'' 0 =
     Inr (Arr [Obj [(''id'', Str ''#0''), (''name'', Str ''a''), (''type'', Str ''dictionary''),
                    (''value'',
                     Arr [Obj [(''id'', Str ''#1''), (''name'', Str ''b''), (''type'', Str ''dictionary''),
                               (''value'',
                                Arr [Obj [(''id'', Str ''#2''), (''name'', Str ''c''),
                                          (''type'', Str ''number''), (''value'', Num 5)]])]])]], 3)"
    by (simp add: setDeepValue.simps generateId_def mkNode_def exampleHost_def
                  indexString.simps digitChar_def numeral_2_eq_2)
  from setDeepValue_creates_missing [OF sp d f, of exampleHost "Num 5" "''number''" 0] e
  show ?thesis by auto
qed

text \<open>
  Claim C5 as stated gives the new leaf a fresh identifier. The identifier is whatever
  \<^verbatim>\<open>generateId\<close> returns next, and \<^verbatim>\<open>setDeepValue\<close> does not look at the identifiers of
  the tree: here the tree holds a node with the identifier that the generator returns
  next, and the appended leaf carries the same one.
\<close>

theorem setDeepValue_id_collision_counterexample:
  "setDeepValue exampleHost
     (Arr [Obj [(''id'', Str ''#0''), (''name'', Str ''x''), (''type'', Str ''text''),
                (''value'', Str ''old'')]])
     ''y'' (Str ''new'') ''text'' 0
   = Inr (Arr [Obj [(''id'', Str ''#0''), (''name'', Str ''x''), (''type'', Str ''text''),
                    (''value'', Str ''old'')],
               Obj [(''id'', Str ''#0''), (''name'', Str ''y''), (''type'', Str ''text''),
                    (''value'', Str ''new'')]], 1)
   \<and> nodeIds [Obj [(''id'', Str ''#0''), (''name'', Str ''x''), (''type'', Str ''text''),
                   (''value'', Str ''old'') :: string \<times> int jsval]]
     = [Str ''#0'']
   \<and> getProp (Obj [(''id'', Str ''#0''), (''name'', Str ''y''), (''type'', Str ''text''),
                   (''value'', Str ''new'') :: string \<times> int jsval]) ''id''
     = Inr (Str ''#0'')"
  by (simp add: setDeepValue.simps generateId_def mkNode_def exampleHost_def
                indexString.simps digitChar_def)

subsection \<open>C8: a leaf in the way\<close>

text \<open>
  Claim C8. If a segment that is not the last names an existing child whose type is
  neither \<^verbatim>\<open>dictionary\<close> nor \<^verbatim>\<open>list\<close> (the segments before it, \<open>pre\<close>, leading there
  through existing containers), \<^verbatim>\<open>setDeepValue\<close> returns the input tree: nothing is
  added, changed or removed, no identifier is drawn and nothing is thrown.
\<close>

theorem setDeepValue_blocked_is_noop:
  assumes "split_dot p = pre @ key # rest" and "rest \<noteq> []"
    and "descend root pre = Some (Arr ns)"
    and "findIndex ns key = Inr (Some i)"
    and "getProp (ns ! i) ''type'' = Inr t"
    and "t \<noteq> Str ''dictionary''" and "t \<noteq> Str ''list''"
  shows "setDeepValue h root p v k s = Inr (root, s)"
  using assms by (rule sdv_blocked)

theorem setDeepValue_blocked_is_noop_witness:
  "setDeepValue exampleHost
     (Arr [mkNode ''1'' (Str ''config'') (Str ''dictionary'')
             (Arr [mkNode ''2'' (Str ''theme'') (Str ''text'') (Str ''dark'')])])
     ''config.theme.color'' (Str ''red'') ''text'' 0
   = Inr (Arr [mkNode ''1'' (Str ''config'') (Str ''dictionary'')
             (Arr [mkNode ''2'' (Str ''theme'') (Str ''text'') (Str ''dark'')])], 0)"
proof -
  let ?leaf = "mkNode ''2'' (Str ''theme'') (Str ''text'') (Str ''dark'') :: int jsval"
  let ?root = "Arr [mkNode ''1'' (Str ''config'') (Str ''dictionary'') (Arr [?leaf])]"
  have sp: "split_dot ''config.theme.color'' = [''config''] @ ''theme'' # [''color'']" by simp
  have ne: "[''color''] \<noteq> []" by simp
  have d: "descend ?root [''config''] = Some (Arr [?leaf])" by (simp add: mkNode_def)
  have f: "findIndex [?leaf] ''theme'' = Inr (Some 0)" by (simp add: mkNode_def)
  have ty: "getProp ([?leaf] ! 0) ''type'' = Inr (Str ''text'')" by (simp add: mkNode_def)
  show ?thesis
    by (rule setDeepValue_blocked_is_noop [OF sp ne d f ty]) simp_all
qed

subsection \<open>C10: the last segment names an existing child\<close>

text \<open>
  Claim C10. If the last segment names an existing child, of whatever type and so in
  particular a dictionary or a list, \<^verbatim>\<open>setDeepValue\<close> replaces that child in place by
  a node with the same identifier and name, the supplied kind and the supplied value;
  the children it had are gone with its old payload. The witness overwrites a
  dictionary that has a child by a number.
\<close>

theorem setDeepValue_overwrites_existing:
  assumes "split_dot p = pre @ [key]"
    and "descend root pre = Some (Arr ns)"
    and "findIndex ns key = Inr (Some i)"
  shows "\<exists>t n'. setDeepValue h root p v k s = Inr (t, s)
           \<and> descend t pre = Some (Arr (ns[i := n']))
           \<and> n' = Obj (defineProp (defineProp (ownProps (ns ! i)) ''value'' v) ''type'' (Str k))
           \<and> getProp n' ''id'' = getProp (ns ! i) ''id''
           \<and> getProp n' ''name'' = Inr (Str key)
           \<and> getProp n' ''type'' = Inr (Str k)
           \<and> getProp n' ''value'' = Inr v"
proof -
  let ?n = "Obj (defineProp (defineProp (ownProps (ns ! i)) ''value'' v) ''type'' (Str k))"
  have q: "split_dot (join_dot [key]) = [key]"
    by (rule split_dot_suffix [OF assms(1)]) simp
  have "setDeepValue h (Arr ns) (join_dot [key]) v k s = Inr (Arr (ns[i := ?n]), s)"
    by (rule sdv_final_existing [OF q assms(3)])
  from sdv_at_depth [OF assms(1) _ assms(2) this]
  obtain t where t: "setDeepValue h root p v k s = Inr (t, s)"
    "descend t pre = Some (Arr (ns[i := ?n]))" by auto
  from findIndex_Some [OF assms(3)] obtain kvs where kvs: "ns ! i = Obj kvs"
    and nm: "map_of kvs ''name'' = Some (Str key)" using getProp_Str_Obj by blast
  have "getProp ?n ''id'' = getProp (ns ! i) ''id''" "getProp ?n ''name'' = Inr (Str key)"
    "getProp ?n ''type'' = Inr (Str k)" "getProp ?n ''value'' = Inr v"
    using kvs nm by (simp_all add: map_of_defineProp)
  with t show ?thesis by blast
qed

theorem setDeepValue_overwrites_existing_witness:
  "setDeepValue exampleHost
     (Arr [mkNode ''1'' (Str ''config'') (Str ''dictionary'')
             (Arr [mkNode ''2'' (Str ''theme'') (Str ''text'') (Str ''dark'')])])
     ''config'' (Num 5) ''number'' 0
   = Inr (Arr [mkNode ''1'' (Str ''config'') (Str ''number'') (Num 5)], 0)"
proof -
  let ?leaf = "mkNode ''2'' (Str ''theme'') (Str ''text'') (Str ''dark'') :: int jsval"
  let ?dict = "mkNode ''1'' (Str ''config'') (Str ''dictionary'') (Arr [?leaf])"
  have sp: "split_dot ''config'' = [] @ [''config'']" by simp
  have d: "descend (Arr [?dict]) [] = Some (Arr [?dict])" by simp
  have f: "findIndex [?dict] ''config'' = Inr (Some 0)" by (simp add: mkNode_def)
  from setDeepValue_overwrites_existing [OF sp d f, of exampleHost "Num 5" "''number''" 0]
  show ?thesis by (auto simp: mkNode_def defineProp_def)
qed

section \<open>Properties of resolvePath\<close>

lemma findByName_wf:
  "list_all wfNode xs \<Longrightarrow>
   findByName xs seg = Inr (orUndefined (find (\<lambda>n. getProp n ''name'' = Inr (Str seg)) xs))"
proof (induction xs)
  case Nil
  show ?case by (simp add: orUndefined_def)
next
  case (Cons x xs)
  then obtain kvs where "x = Obj kvs" using wfNode_Obj by auto
  with Cons show ?case by (auto simp: orUndefined_def)
qed

lemma find_wf:
  "list_all wfNode xs \<Longrightarrow> find P xs = Some n \<Longrightarrow> wfNode n"
  by (induction xs) (auto split: if_splits)

lemma elementAt_parseInt:
  "elementAt xs (parseInt seg) =
     orUndefined (case parseIntIndex seg of Some i \<Rightarrow> if i < length xs then Some (xs ! i) else None
                  | None \<Rightarrow> None)"
  by (auto simp: elementAt_def parseIntIndex_def orUndefined_def split: option.splits)

lemma lookup_wf:
  assumes "list_all wfNode xs"
  shows "findByName xs seg = Inr byName \<Longrightarrow>
         (if truthy h byName then byName else elementAt xs (parseInt seg))
           = orUndefined (specLookup parseIntIndex xs seg)"
    and "specLookup parseIntIndex xs seg = Some n \<Longrightarrow> wfNode n"
proof -
  let ?f = "find (\<lambda>n. getProp n ''name'' = Inr (Str seg)) xs"
  assume "findByName xs seg = Inr byName"
  with findByName_wf [OF assms, of seg] have b: "byName = orUndefined ?f" by simp
  show "(if truthy h byName then byName else elementAt xs (parseInt seg))
           = orUndefined (specLookup parseIntIndex xs seg)"
  proof (cases ?f)
    case None
    with b show ?thesis
      by (simp add: orUndefined_def specLookup_def elementAt_parseInt)
  next
    case (Some m)
    with find_wf [OF assms] have "wfNode m" by blast
    with b Some show ?thesis
      by (simp add: orUndefined_def specLookup_def wfNode_truthy)
  qed
next
  assume s: "specLookup parseIntIndex xs seg = Some n"
  from assms have all: "\<And>i. i < length xs \<Longrightarrow> wfNode (xs ! i)" by (simp add: list_all_length)
  from s find_wf [OF assms] all show "wfNode n"
    by (auto simp: specLookup_def split: option.splits if_splits)
qed

lemma resolveLoop_wf:
  "list_all wfNode xs \<Longrightarrow>
   resolveLoop h parts (Arr xs) = Inr (orUndefined (specResolve parseIntIndex xs parts))"
proof (induction parts arbitrary: xs)
  case Nil
  show ?case by (simp add: orUndefined_def)
next
  case (Cons seg rest)
  from findByName_wf [OF Cons.prems] obtain byName where bn: "findByName xs seg = Inr byName"
    by blast
  note lk = lookup_wf [OF Cons.prems, of seg]
  show ?case
  proof (cases "specLookup parseIntIndex xs seg")
    case None
    with lk(1) [OF bn, of h] bn show ?thesis by (simp add: orUndefined_def)
  next
    case (Some n)
    with lk(2) have wf: "wfNode n" by blast
    from Some lk(1) [OF bn, of h] have found: "(if truthy h byName then byName else elementAt xs (parseInt seg)) = n"
      by (simp add: orUndefined_def)
    show ?thesis
    proof (cases "rest = []")
      case True
      with bn found Some wf show ?thesis by (simp add: orUndefined_def wfNode_truthy)
    next
      case False
      show ?thesis
      proof (cases "isContainer n")
        case True
        with wfNode_container [OF wf] obtain ys where ys: "getProp n ''value'' = Inr (Arr ys)"
          and wys: "list_all wfNode ys" by auto
        from ys have ch: "children n = ys" by (simp add: children_def)
        from Cons.IH [OF wys] bn found Some wf False True ys ch show ?thesis
          by (simp add: wfNode_truthy)
      next
        case nc: False
        with wfNode_container [OF wf] obtain v where v: "getProp n ''value'' = Inr v"
          and pv: "isPrimitive v" by auto
        from pv have "resolveLoop h rest v = Inr Undefined"
          using False by (cases rest; cases v) auto
        with bn found Some wf False nc v show ?thesis
          by (simp add: wfNode_truthy orUndefined_def)
      qed
    qed
  qed
qed

lemma resolvePath_wf_spec:
  "list_all wfNode root \<Longrightarrow>
   resolvePath h root path = Inr (orUndefined (specResolve parseIntIndex root (split_dot path)))"
  unfolding resolvePath_def by (rule resolveLoop_wf)

subsection \<open>C7: what resolvePath returns\<close>

text \<open>
  Claim C7, as amended. On a well-formed node sequence \<^verbatim>\<open>resolvePath\<close> never throws and
  returns what the specification describes: each segment is matched first against the
  children's names and only when no name matches is it read as a zero-based index
  into the same sequence; when neither gives a node, or a segment that is not the
  last lands on a node that is not a container, the result is \<^verbatim>\<open>undefined\<close>; on the
  last segment the node itself is returned. The index is read by \<^verbatim>\<open>parseInt\<close>, not as a
  decimal numeral.
\<close>

theorem resolvePath_refines:
  "list_all wfNode root \<Longrightarrow>
   resolvePath h root path = Inr (orUndefined (specResolve parseIntIndex root (split_dot path)))"
  by (rule resolvePath_wf_spec)

theorem resolvePath_refines_witness:
  "resolvePath exampleHost [mkNode ''1'' (Str ''x'') (Str ''number'') (Num 5)] ''x''
     = Inr (mkNode ''1'' (Str ''x'') (Str ''number'') (Num 5))
   \<and> resolvePath exampleHost rootAB ''0'' = Inr (mkNode ''1'' (Str ''a'') (Str ''text'') (Str ''x''))
   \<and> resolvePath exampleHost rootAB ''c'' = Inr Undefined
   \<and> resolvePath exampleHost rootAB ''a.x'' = Inr Undefined
   \<and> resolvePath exampleHost
         [mkNode ''7'' (Str ''1'') (Str ''text'') (Str ''first''),
          mkNode ''8'' (Str ''z'') (Str ''text'') (Str ''second'')] ''1''
       = Inr (mkNode ''7'' (Str ''1'') (Str ''text'') (Str ''first''))"
proof -
  have w1: "list_all wfNode [mkNode ''1'' (Str ''x'') (Str ''number'') (Num (5::int))]"
    by (simp add: wfNode.simps mkNode_def nodeKeys_def)
  have w2: "list_all wfNode rootAB"
    by (simp add: rootAB_def wfNode.simps mkNode_def nodeKeys_def)
  have w3: "list_all wfNode [mkNode ''7'' (Str ''1'') (Str ''text'') (Str ''first''),
                              mkNode ''8'' (Str ''z'') (Str ''text'') (Str ''second'') :: int jsval]"
    by (simp add: wfNode.simps mkNode_def nodeKeys_def)
  note r5 = resolvePath_refines [OF w3, of exampleHost "''1''"]
  note r1 = resolvePath_refines [OF w1, of exampleHost "''x''"]
  note r2 = resolvePath_refines [OF w2, of exampleHost "''0''"]
  note r3 = resolvePath_refines [OF w2, of exampleHost "''c''"]
  note r4 = resolvePath_refines [OF w2, of exampleHost "''a.x''"]
  have idx: "parseIntIndex ''0'' = Some 0" "parseIntIndex ''c'' = None"
    by (simp_all add: parseIntIndex_def parseInt_def isWhiteSpace_def digitValue_def)
  from r1 r2 r3 r4 r5 show ?thesis
    by (simp add: rootAB_def mkNode_def specLookup_def orUndefined_def idx isContainer_def)
qed

text \<open>
  Claim C7 as stated reads the segment as a decimal index. The segment \<^verbatim>\<open>0x1\<close> is not
  a decimal numeral and no child is named so, yet \<^verbatim>\<open>resolvePath\<close> returns the second
  node: \<^verbatim>\<open>parseInt\<close> reads it as the hexadecimal index 1.
\<close>

theorem resolvePath_hex_counterexample:
  "list_all wfNode rootAB
   \<and> resolvePath exampleHost rootAB ''0x1'' = Inr (mkNode ''2'' (Str ''b'') (Str ''text'') (Str ''y''))
   \<and> specResolve decimalIndex rootAB (split_dot ''0x1'') = None"
  by (simp add: rootAB_def wfNode.simps mkNode_def nodeKeys_def resolvePath_def parseInt_def
        isWhiteSpace_def digitValue_def elementAt_def specLookup_def decimalIndex_def)

section \<open>Properties of evaluateExpression\<close>

text \<open>None of the functions the evaluator calls before its arithmetic looks at \<^verbatim>\<open>new Function\<close>.\<close>

lemma truthy_runFunction [simp]: "truthy (h\<lparr>runFunction := r\<rparr>) v = truthy h v"
  by (cases v) auto

lemma jsString_runFunction:
  "jsString (h\<lparr>runFunction := r\<rparr>) v = jsString h v"
  "joinComma (h\<lparr>runFunction := r\<rparr>) xs = joinComma h xs"
  by (induction h v and h xs rule: jsString_joinComma.induct) (auto split: sum.splits)

lemma resolveLoop_runFunction:
  "resolveLoop (h\<lparr>runFunction := r\<rparr>) parts current = resolveLoop h parts current"
  by (induction parts arbitrary: current) (auto simp: Let_def split: jsval.splits sum.splits)

lemma referenceCallback_runFunction:
  "referenceCallback (h\<lparr>runFunction := r\<rparr>) root = referenceCallback h root"
  by (auto simp: fun_eq_iff referenceCallback_def resolvePath_def resolveLoop_runFunction
        jsString_runFunction split: sum.splits)

lemma evaluate_text:
  assumes "replaceReferences (referenceCallback h root) formula False = Inr (s, refs)"
    and "\<not> onlyArithmetic s"
  shows "evaluateExpression (h\<lparr>runFunction := r\<rparr>) formula root = \<lparr> result = Str s, error = None \<rparr>"
  using assms
  by (cases "formula = []")
     (auto simp: evaluateExpression_def referenceCallback_runFunction Let_def)

text \<open>On a well-formed tree the callback never throws a TypeError.\<close>

lemma wfNode_no_toString: "wfNode (Obj kvs) \<Longrightarrow> map_of kvs ''toString'' = None"
proof -
  assume "wfNode (Obj kvs)"
  then have "list_all (\<lambda>k. k \<in> set nodeKeys) (map fst kvs)"
    by (subst (asm) wfNode.simps) simp
  then have "''toString'' \<notin> fst ` set kvs"
    by (auto simp: list_all_iff nodeKeys_def)
  then show ?thesis by (simp add: map_of_eq_None_iff)
qed

lemma joinComma_wf: "list_all wfNode ys \<Longrightarrow> \<exists>x. joinComma h ys = Inr x"
proof (induction ys)
  case Nil
  show ?case by simp
next
  case (Cons y ys)
  then obtain kvs where y: "y = Obj kvs" using wfNode_Obj by auto
  with Cons.prems have "map_of kvs ''toString'' = None" by (simp add: wfNode_no_toString)
  with Cons y show ?case by auto
qed

lemma jsString_value_wf:
  assumes "wfNode n"
  shows "\<exists>v x. getProp n ''value'' = Inr v \<and> jsString h v = Inr x"
proof (cases "isContainer n")
  case True
  with wfNode_container [OF assms] obtain ys where "getProp n ''value'' = Inr (Arr ys)"
    "list_all wfNode ys" by auto
  with joinComma_wf [of ys h] show ?thesis by auto
next
  case False
  with wfNode_container [OF assms] obtain v where v: "getProp n ''value'' = Inr v" "isPrimitive v"
    by auto
  then show ?thesis by (cases v) auto
qed

lemma specResolve_wf:
  "list_all wfNode xs \<Longrightarrow> specResolve parseIntIndex xs parts = Some n \<Longrightarrow> wfNode n"
proof (induction parts arbitrary: xs)
  case Nil
  then show ?case by simp
next
  case (Cons seg rest)
  from Cons.prems(2) obtain m where m: "specLookup parseIntIndex xs seg = Some m"
    by (auto split: option.splits)
  with lookup_wf(2) [OF Cons.prems(1)] have wm: "wfNode m" by blast
  show ?case
  proof (cases "rest = []")
    case True
    with Cons.prems(2) m wm show ?thesis by simp
  next
    case False
    with Cons.prems(2) m have c: "isContainer m"
      and r: "specResolve parseIntIndex (children m) rest = Some n"
      by (auto split: if_splits)
    from wfNode_container [OF wm] c have "list_all wfNode (children m)"
      by (auto simp: children_def)
    from Cons.IH [OF this r] show ?thesis .
  qed
qed

lemma resolvePath_wf:
  assumes "list_all wfNode root"
  shows "resolvePath h root path = Inr Undefined \<or> (\<exists>n. resolvePath h root path = Inr n \<and> wfNode n)"
proof (cases "specResolve parseIntIndex root (split_dot path)")
  case None
  with resolvePath_wf_spec [OF assms, of h path] show ?thesis by (simp add: orUndefined_def)
next
  case (Some n)
  with specResolve_wf [OF assms] have "wfNode n" by blast
  with Some resolvePath_wf_spec [OF assms, of h path] show ?thesis by (simp add: orUndefined_def)
qed

lemma referenceCallback_wf:
  assumes "list_all wfNode root"
  shows "if unresolved h root path
         then referenceCallback h root path st = Inl (Error (''Key not found: '' @ path))
         else \<exists>x. referenceCallback h root path st = Inr (x, True)"
proof (cases "unresolved h root path")
  case True
  then show ?thesis by (simp add: unresolved_def referenceCallback_def)
next
  case False
  with resolvePath_wf [OF assms, of h path] obtain n where n: "resolvePath h root path = Inr n"
    and wf: "wfNode n" by (auto simp: unresolved_def)
  from wf obtain kvs where kvs: "n = Obj kvs" using wfNode_Obj by blast
  from jsString_value_wf [OF wf, of h] obtain v x where "getProp n ''value'' = Inr v"
    "jsString h v = Inr x" by blast
  with False n kvs show ?thesis by (auto simp: referenceCallback_def)
qed

lemma replaceReferences_first_failure:
  assumes cb: "\<And>p st. if bad p then f p st = Inl (E p) else \<exists>x st'. f p st = Inr (x, st')"
  shows "find bad (referencePaths s) = Some q \<Longrightarrow> replaceReferences f s st = Inl (E q)"
proof (induction s arbitrary: st rule: referencePaths.induct)
  case 1
  then show ?case by simp
next
  case (2 c cs)
  show ?case
  proof (cases "matchReference (c # cs)")
    case None
    with 2 show ?thesis by simp
  next
    case (Some pr)
    obtain p r where pr: "pr = (p, r)" by (cases pr)
    show ?thesis
    proof (cases "bad p")
      case True
      with cb [of p st] have "f p st = Inl (E p)" by simp
      moreover from True "2.prems" Some pr have "q = p" by simp
      ultimately show ?thesis using Some pr by simp
    next
      case False
      with cb [of p st] obtain x st' where x: "f p st = Inr (x, st')" by auto
      from False "2.prems" Some pr have "find bad (referencePaths r) = Some q" by simp
      from "2.IH"(2) [OF Some pr [symmetric] this, of st'] x Some pr show ?thesis by simp
    qed
  qed
qed

lemma find_Some_set: "find P xs = Some q \<Longrightarrow> q \<in> set xs \<and> P q"
  by (induction xs) (auto split: if_splits)

lemma find_exists: "p \<in> set xs \<Longrightarrow> P p \<Longrightarrow> \<exists>q. find P xs = Some q"
  by (induction xs) auto

lemmas example_evaluation =
  replaceReferences.simps matchReference_def isPathChar_def referenceCallback_def
  resolvePath_def parseInt_def isWhiteSpace_def digitValue_def elementAt_def
  mkNode_def exampleHost_def intToString_def indexString.simps digitChar_def

subsection \<open>C4: a reference that does not resolve\<close>

text \<open>
  Claim C4. If a formula holds a reference token whose path does not resolve against
  the (well-formed) root, \<^verbatim>\<open>evaluateExpression\<close> returns the sentinel \<^verbatim>\<open>"ERR"\<close> as
  result and the error \<^verbatim>\<open>Key not found: \<close> followed by the first path of the formula
  that does not resolve. The evaluation is a function of the formula and the root and
  returns nothing but this record: no tree is produced or changed.
\<close>

theorem evaluate_missing_reference:
  assumes "list_all wfNode root"
    and "p \<in> set (referencePaths formula)"
    and "unresolved h root p"
  shows "\<exists>q. find (unresolved h root) (referencePaths formula) = Some q
           \<and> evaluateExpression h formula root
               = \<lparr> result = Str ''ERR'', error = Some (''Key not found: '' @ q) \<rparr>"
proof -
  from find_exists [OF assms(2), of "unresolved h root"] assms(3)
  obtain q where q: "find (unresolved h root) (referencePaths formula) = Some q" by blast
  have "replaceReferences (referenceCallback h root) formula False
        = Inl (Error (''Key not found: '' @ q))"
  proof (rule replaceReferences_first_failure [where bad = "unresolved h root", OF _ q])
    fix p st
    from referenceCallback_wf [OF assms(1), of h p st]
    show "if unresolved h root p
          then referenceCallback h root p st = Inl (Error (''Key not found: '' @ p))
          else \<exists>x st'. referenceCallback h root p st = Inr (x, st')"
      by (auto split: if_splits)
  qed
  moreover from assms(2) have "formula \<noteq> []" by auto
  ultimately show ?thesis using q by (simp add: evaluateExpression_def)
qed

theorem evaluate_missing_reference_witness:
  "evaluateExpression exampleHost ''{{missing}}'' rootAB
   = \<lparr> result = Str ''ERR'', error = Some ''Key not found: missing'' \<rparr>"
proof -
  have w: "list_all wfNode rootAB"
    by (simp add: rootAB_def wfNode.simps mkNode_def nodeKeys_def)
  have ps: "referencePaths ''{{missing}}'' = [''missing'']"
    by (simp add: matchReference_def isPathChar_def)
  have u: "unresolved exampleHost rootAB ''missing''"
    by (simp add: unresolved_def rootAB_def example_evaluation)
  from ps have p: "''missing'' \<in> set (referencePaths ''{{missing}}'')" by simp
  from evaluate_missing_reference [OF w p u] u ps show ?thesis by simp
qed

subsection \<open>C6: a substituted string outside the arithmetic character set\<close>

text \<open>
  Claim C6. If the string obtained by substituting the references holds a character
  other than a digit, \<^verbatim>\<open>+ - * / ( ) .\<close> and white space, \<^verbatim>\<open>evaluateExpression\<close> returns
  that string as a text result with no error, and it does so whatever
  \<^verbatim>\<open>new Function\<close> would do: no arithmetic is attempted. The witness is
  \<^verbatim>\<open>evaluate("Hello {{name}}")\<close> with \<^verbatim>\<open>name = "World"\<close>.
\<close>

theorem evaluate_outside_arithmetic_charset:
  assumes "replaceReferences (referenceCallback h root) formula False = Inr (s, refs)"
    and "c \<in> set s" and "\<not> isArithmeticChar c"
  shows "evaluateExpression h formula root = \<lparr> result = Str s, error = None \<rparr>
         \<and> (\<forall>r. evaluateExpression (h\<lparr>runFunction := r\<rparr>) formula root
                   = \<lparr> result = Str s, error = None \<rparr>)"
proof -
  from assms(2,3) have na: "\<not> onlyArithmetic s" by (auto simp: onlyArithmetic_def list_all_iff)
  from evaluate_text [OF assms(1) na] have all:
    "\<And>r. evaluateExpression (h\<lparr>runFunction := r\<rparr>) formula root = \<lparr> result = Str s, error = None \<rparr>" .
  from all [of "runFunction h"] all show ?thesis by simp
qed

theorem evaluate_outside_arithmetic_charset_witness:
  "evaluateExpression exampleHost ''Hello {{name}}''
     [mkNode ''1'' (Str ''name'') (Str ''text'') (Str ''World'')]
   = \<lparr> result = Str ''Hello World'', error = None \<rparr>"
proof -
  let ?root = "[mkNode ''1'' (Str ''name'') (Str ''text'') (Str ''World'') :: int jsval]"
  have sub: "replaceReferences (referenceCallback exampleHost ?root) ''Hello {{name}}'' False
             = Inr (''Hello World'', True)"
    by (simp add: example_evaluation)
  have c: "CHR ''H'' \<in> set ''Hello World''" by simp
  have n: "\<not> isArithmeticChar CHR ''H''" by (simp add: isArithmeticChar_def isWhiteSpace_def)
  from evaluate_outside_arithmetic_charset [OF sub c n] show ?thesis by simp
qed

subsection \<open>C3: the modulo operator\<close>

text \<open>
  Claim C3 says that a substituted string that is an arithmetic expression with the
  operator \<^verbatim>\<open>%\<close> is evaluated to its numeric value. The code does not: \<^verbatim>\<open>%\<close> is
  among the characters that make a string look like arithmetic, but it is missing from
  the character set that admits a string to the evaluation, so every substituted
  string that holds \<^verbatim>\<open>%\<close> is returned as text. The witness is \<^verbatim>\<open>{{a}} % 3\<close> with
  \<^verbatim>\<open>a = 10\<close>, where the result is the text \<^verbatim>\<open>10 % 3\<close> and not the number 1.
\<close>

theorem evaluate_modulo_is_text:
  assumes "replaceReferences (referenceCallback h root) formula False = Inr (s, refs)"
    and "CHR ''%'' \<in> set s"
  shows "evaluateExpression h formula root = \<lparr> result = Str s, error = None \<rparr>"
proof -
  have "\<not> isArithmeticChar CHR ''%''" by (simp add: isArithmeticChar_def isWhiteSpace_def)
  with assms(2) have na: "\<not> onlyArithmetic s" by (auto simp: onlyArithmetic_def list_all_iff)
  from evaluate_text [OF assms(1) na, of "runFunction h"] show ?thesis by simp
qed

theorem evaluate_modulo_is_text_witness:
  "evaluateExpression exampleHost ''{{a}} % 3'' [mkNode ''1'' (Str ''a'') (Str ''number'') (Num 10)]
   = \<lparr> result = Str ''10 % 3'', error = None \<rparr>"
proof -
  let ?root = "[mkNode ''1'' (Str ''a'') (Str ''number'') (Num 10) :: int jsval]"
  have sub: "replaceReferences (referenceCallback exampleHost ?root) ''{{a}} % 3'' False
             = Inr (''10 % 3'', True)"
    by (simp add: example_evaluation)
  have c: "CHR ''%'' \<in> set ''10 % 3''" by simp
  from evaluate_modulo_is_text [OF sub c] show ?thesis by simp
qed
section \<open>Properties of exportData\<close>









text \<open>
  A node named \<^verbatim>\<open>__proto__\<close> leaves no entry while the write reaches the setter of
  \<^verbatim>\<open>Object.prototype\<close>; once a payload \<^verbatim>\<open>null\<close> has removed the prototype, the next
  such node becomes an own property.
\<close>

lemma exportData_proto_after_null:
  "exportData h [mkNode i (Str ''__proto__'') (Str ''text'') Null,
                 mkNode j (Str ''__proto__'') (Str ''number'') (Num n)]
     = Inr (Obj [(''__proto__'', Num n)])"
  by (simp add: exportData_def mkNode_def assignProp_def emptyObject_def)

lemma exportData_proto_ignored:
  "exportData h [mkNode i (Str ''__proto__'') (Str ''number'') (Num n),
                 mkNode j (Str ''__proto__'') (Str ''text'') (Str x)]
     = Inr (Obj [])"
  by (simp add: exportData_def mkNode_def assignProp_def emptyObject_def)

subsection \<open>C9: expression leaves are exported as their formula\<close>




section \<open>Properties of the JSON codec\<close>

lemma protoFree_Obj:
  "protoFree (Obj kvs) = (''__proto__'' \<notin> set (map fst kvs) \<and> list_all protoFree (map snd kvs))"
  by (subst protoFree.simps) simp

lemma deepEqual_refl_aux: "size v \<le> m \<Longrightarrow> deepEqual v v"
proof (induction m arbitrary: v)
  case 0
  then show ?case by (cases v) (auto simp: deepEqual.simps)
next
  case (Suc m)
  show ?case
  proof (cases v)
    case (Obj kvs)
    have "list_all (\<lambda>k. case map_of kvs k of
                           Some u \<Rightarrow> (case map_of kvs k of Some w \<Rightarrow> deepEqual u w | None \<Rightarrow> False)
                         | None \<Rightarrow> False) (map fst kvs)"
      unfolding list_all_iff
    proof
      fix k assume "k \<in> set (map fst kvs)"
      then obtain u where u: "map_of kvs k = Some u"
        by (cases "map_of kvs k") (auto simp: map_of_eq_None_iff)
      then have "(k, u) \<in> set kvs" by (rule map_of_SomeD)
      from pair_smaller [OF this] Suc.prems Obj have "size u \<le> m" by simp
      from Suc.IH [OF this] u
      show "case map_of kvs k of
              Some u \<Rightarrow> (case map_of kvs k of Some w \<Rightarrow> deepEqual u w | None \<Rightarrow> False)
            | None \<Rightarrow> False" by simp
    qed
    with Obj show ?thesis by (subst deepEqual.simps) simp
  next
    case (Arr xs)
    have "list_all (\<lambda>(u, w). deepEqual u w) (zip xs xs)"
      unfolding list_all_iff
    proof
      fix p assume pin: "p \<in> set (zip xs xs)"
      obtain u w where uw: "p = (u, w)" by (cases p)
      with pin have same: "w = u" and mem: "u \<in> set xs" by (auto simp: zip_same)
      from elem_smaller [OF mem] Suc.prems Arr have "size u \<le> m" by simp
      from Suc.IH [OF this] uw same show "case p of (u, w) \<Rightarrow> deepEqual u w" by simp
    qed
    with Arr show ?thesis by (subst deepEqual.simps) simp
  qed (auto simp: deepEqual.simps)
qed

lemma deepEqual_refl: "deepEqual v v"
  by (rule deepEqual_refl_aux [OF order_refl])

lemma importItems_fst:
  "fst (importItems h idx (item # items) s) =
     mkNode (randomId h s) (Str (indexString idx))
       (Str (if typeof item = ''object'' then ''dictionary'' else typeof item)) item
     # fst (importItems h (Suc idx) items (Suc s))"
  by (simp add: generateId_def split: prod.splits)

lemma items_roundtrip:
  "list_all (\<lambda>x. \<not> isArray x) items \<Longrightarrow>
   exportItems h (fst (importItems h idx items s)) = Inr items"
proof (induction items arbitrary: idx s)
  case Nil
  show ?case by simp
next
  case (Cons x items)
  then have nx: "\<not> isArray x" and ih: "exportItems h (fst (importItems h (Suc idx) items (Suc s))) = Inr items"
    by simp_all
  from nx have "(case x of
                   Arr ys \<Rightarrow> (case exportEach h ys emptyObject of
                               Inl e \<Rightarrow> Inl e
                             | Inr (kvs, passes) \<Rightarrow> Inr (Obj kvs))
                 | _ \<Rightarrow> Inr x) = Inr x"
    by (cases x) auto
  with ih show ?case
    by (simp add: importItems_fst mkNode_def del: importItems.simps)
qed

lemma update_fresh: "k \<notin> fst ` set acc \<Longrightarrow> AList.update k v acc = acc @ [(k, v)]"
  by (induction acc) auto

lemma assignProp_fresh:
  "k \<noteq> ''__proto__'' \<Longrightarrow> k \<notin> fst ` set acc \<Longrightarrow>
   assignProp (acc, r) k v b = (acc @ [(k, v)], r)"
  by (simp add: assignProp_def update_fresh)

lemma parseEntries_Cons:
  "fst (parseEntries h ((key, val) # entries) s) =
     (let (fv, s1) =
        (case val of
           Obj kvs \<Rightarrow> (Arr (fst (parseEntries h kvs s)), snd (parseEntries h kvs s))
         | Arr items \<Rightarrow> (Arr (fst (importItems h 0 items s)), snd (importItems h 0 items s))
         | _ \<Rightarrow> (val, s))
      in mkNode (randomId h s1) (Str key) (Str (importType val)) fv
         # fst (parseEntries h entries (Suc s1)))"
  by (cases val) (simp_all add: importType_def generateId_def Let_def split: prod.splits)

lemma entries_roundtrip_aux:
  "size_list (size_prod (\<lambda>x. 0) size) kvs \<le> m \<Longrightarrow>
   plainJson (Obj kvs) \<Longrightarrow> protoFree (Obj kvs) \<Longrightarrow> fst ` set acc \<inter> fst ` set kvs = {} \<Longrightarrow>
   exportEach h (fst (parseEntries h kvs s)) (acc, r) = Inr (acc @ kvs, r)"
proof (induction m arbitrary: kvs acc r s)
  case 0
  then have "kvs = []" by (cases kvs) auto
  then show ?case by simp
next
  case (Suc m)
  show ?case
  proof (cases kvs)
    case Nil
    then show ?thesis by simp
  next
    case (Cons kv entries)
    obtain key val where kv: "kv = (key, val)" by (cases kv)
    from Suc.prems(1) Cons kv have se: "size_list (size_prod (\<lambda>x. 0) size) entries \<le> m"
      and sv: "size val \<le> m" by simp_all
    from Suc.prems(2) Cons kv have pj: "plainJson val" and pe: "plainJson (Obj entries)"
      and kf: "key \<notin> fst ` set entries" by auto
    from Suc.prems(3) Cons kv have pf: "protoFree val" and pfe: "protoFree (Obj entries)"
      and kp: "key \<noteq> ''__proto__''"
      by (auto simp: protoFree_Obj)
    from Suc.prems(4) Cons kv have ka: "key \<notin> fst ` set acc"
      and disj: "fst ` set (acc @ [(key, val)]) \<inter> fst ` set entries = {}"
      using kf by auto
    from parseEntries_Cons [of h key val entries s] obtain i fv s1 where
      pe1: "fst (parseEntries h ((key, val) # entries) s)
            = mkNode i (Str key) (Str (importType val)) fv # fst (parseEntries h entries s1)"
      and fv: "fv = (case val of
              Obj kvs \<Rightarrow> Arr (fst (parseEntries h kvs s))
            | Arr items \<Rightarrow> Arr (fst (importItems h 0 items s))
            | _ \<Rightarrow> val)"
      by (cases val) (auto simp: Let_def)
    have rest: "exportEach h (fst (parseEntries h entries s1)) (acc @ [(key, val)], r)
                = Inr ((acc @ [(key, val)]) @ entries, r)"
      by (rule Suc.IH [OF se pe pfe disj])
    have step: "exportEach h (mkNode i (Str key) (Str (importType val)) fv # fst (parseEntries h entries s1)) (acc, r)
                = exportEach h (fst (parseEntries h entries s1)) (acc @ [(key, val)], r)"
    proof (cases val)
      case (Obj sub)
      with sv have "size_list (size_prod (\<lambda>x. 0) size) sub \<le> m" by simp
      from Suc.IH [OF this, where acc = "[]" and r = True and s = s] pj pf Obj
      have "exportEach h (fst (parseEntries h sub s)) emptyObject = Inr (sub, True)"
        by (simp add: emptyObject_def)
      with Obj fv show ?thesis
        by (simp add: mkNode_def importType_def assignProp_fresh [OF kp ka])
    next
      case (Arr items)
      with pj have "list_all (\<lambda>x. \<not> isArray x) items" by (simp add: list_all_iff)
      from items_roundtrip [OF this, of h 0 s] Arr fv show ?thesis
        by (simp add: mkNode_def importType_def assignProp_fresh [OF kp ka])
    qed (use fv in \<open>simp_all add: mkNode_def importType_def assignProp_fresh [OF kp ka]\<close>)
    from pe1 step rest Cons kv show ?thesis by simp
  qed
qed

text \<open>
  Without the key \<^verbatim>\<open>__proto__\<close> the import succeeds and the export of its result is
  the document itself.
\<close>

lemma export_import_roundtrip:
  assumes "plainJson (Obj kvs)" and "protoFree (Obj kvs)"
  shows "\<exists>nodes s' exported. parseImport h (Obj kvs) s = Inr (nodes, s')
           \<and> exportData h nodes = Inr exported \<and> exported = Obj kvs \<and> deepEqual exported (Obj kvs)"
proof -
  have "exportEach h (fst (parseEntries h kvs s)) ([], True) = Inr ([] @ kvs, True)"
    by (rule entries_roundtrip_aux [OF order_refl assms]) simp
  then show ?thesis
    by (cases "parseEntries h kvs s")
       (simp add: parseImport_def exportData_def emptyObject_def deepEqual_refl)
qed

subsection \<open>C1: export after import\<close>

text \<open>
  Claim C1 says that \<^verbatim>\<open>export(import(J))\<close> is deep-equal to \<open>J\<close> for every JSON object of
  the kind described. The code loses a key: an object parsed from
  \<^verbatim>\<open>{"__proto__": 1}\<close> has the own key \<^verbatim>\<open>__proto__\<close>, the import turns it into a node of
  that name, and the export's assignment \<^verbatim>\<open>result[node.name] = node.value\<close> creates no
  property for it. The export is the empty object, which is not deep-equal to \<open>J\<close>.
  (The lemma before shows the round trip for every such object without that key.)
\<close>

theorem export_import_drops_proto_key:
  "plainJson (Obj [(''__proto__'', Num n)])
   \<and> parseImport h (Obj [(''__proto__'', Num n)]) s
       = Inr ([mkNode (randomId h s) (Str ''__proto__'') (Str ''number'') (Num n)], Suc s)
   \<and> exportData h [mkNode (randomId h s) (Str ''__proto__'') (Str ''number'') (Num n)] = Inr (Obj [])
   \<and> \<not> deepEqual (Obj []) (Obj [(''__proto__'', Num n)])"
  by (simp add: parseImport_def importType_def generateId_def exportData_def mkNode_def
        assignProp_def emptyObject_def deepEqual.simps)

theorem export_import_drops_proto_key_witness:
  "parseImport exampleHost (Obj [(''__proto__'', Num 1)]) 0
     = Inr ([mkNode ''#0'' (Str ''__proto__'') (Str ''number'') (Num 1)], 1)
   \<and> exportData exampleHost [mkNode ''#0'' (Str ''__proto__'') (Str ''number'') (Num 1)] = Inr (Obj [])
   \<and> \<not> deepEqual (Obj []) (Obj [(''__proto__'', Num (1::int))])"
  using export_import_drops_proto_key [of 1 exampleHost 0]
  by (simp add: exampleHost_def indexString.simps digitChar_def)

end
